theory Spec2Isabelle
  imports Complex_Main "HOL-Library.Word"
begin

section \<open>Data model of weber\_sound.c\<close>

text \<open>
  Samples are 16-bit machine integers (\<open>Int16\<close>); adding into the output buffer wraps.
  A sample pointer (\<open>Int16*\<close>) is the memory readable through it: a function from the C
  index to the sample. \<open>PaTime\<close> and \<open>double\<close> are read as real numbers (no
  rounding, no infinities). C \<open>int\<close> and \<open>unsigned long\<close> are \<open>int\<close> and
  \<open>nat\<close>; where the code computes a value that a 32-bit \<open>int\<close> may not hold and
  stores it in one (the new offset of line 182, the negation of line 284), the model
  stores what the two's complement machine stores, \<open>c_int\<close> of the value.

  The structs are records. Field names that the structs share are prefixed:
  \<open>Sound.buffer/len\<close> are \<open>snd_buffer/snd_len\<close>,
  \<open>TimedSound.buffer/start/offset/len\<close> are \<open>ts_buffer/ts_start/ts_offset/ts_len\<close>,
  \<open>Sounds.data\<close> is \<open>q_data\<close> and \<open>Channels.data\<close> is \<open>ch_data\<close>.
  An array with its \<open>len\<close> field is a list: \<open>Sounds.len\<close> is \<open>q_len\<close> and
  \<open>Channels.len\<close> is \<open>ch_len\<close>, the lengths of the lists. A slot of the ring
  (\<open>TimedSound*\<close>, owned by the slot) is a \<open>TimedSound option\<close>, \<open>None\<close> for NULL.
\<close>

type_synonym Int16 = "16 word"
type_synonym PaTime = real

record Sound =
  snd_buffer :: "int \<Rightarrow> Int16"
  snd_len :: int

record TimedSound =
  ts_buffer :: "int \<Rightarrow> Int16"
  ts_start :: PaTime
  ts_offset :: int
  ts_len :: int

definition newTimedSound :: "Sound \<Rightarrow> PaTime \<Rightarrow> TimedSound" where
  "newTimedSound x start =
     \<lparr>ts_buffer = snd_buffer x, ts_start = start, ts_offset = 0, ts_len = snd_len x\<rparr>"

record Sounds =
  q_data :: "TimedSound option list"
  paused :: int
  consumer_index :: int
  producer_index :: int
  done_at :: PaTime

definition q_len :: "Sounds \<Rightarrow> int" where
  "q_len sounds = int (length (q_data sounds))"

definition newSounds :: "int \<Rightarrow> Sounds" where
  "newSounds queue_size =
     \<lparr>q_data = replicate (nat queue_size) None, paused = 0, consumer_index = 0,
      producer_index = 0, done_at = 0\<rparr>"

record Channels =
  ch_data :: "Sounds list"
  playback_error :: int
  last_buffer_size :: nat
  last_latency :: PaTime
  samplerate :: real
  samplelen :: real

definition ch_len :: "Channels \<Rightarrow> int" where
  "ch_len channels = int (length (ch_data channels))"

text \<open>The first \<open>num_channels\<close> queues are the one-shot channels, the next
  \<open>num_channels\<close> the streaming channels, of capacity 2.\<close>

definition newChannels :: "int \<Rightarrow> int \<Rightarrow> int \<Rightarrow> Channels" where
  "newChannels rate num_channels queue_size =
     \<lparr>ch_data = replicate (nat num_channels) (newSounds queue_size)
                 @ replicate (nat num_channels) (newSounds 2),
      playback_error = 0, last_buffer_size = 0, last_latency = 0,
      samplerate = real_of_int rate, samplelen = 1 / real_of_int rate\<rparr>"

text \<open>\<open>WsState\<close>: \<open>channels\<close> is a pointer that \<open>ws_setup\<close> leaves 0 when the
  backend fails, so it is optional. The stream handle is only passed to
  \<open>Pa_GetStreamTime\<close>; the time that call returns is the argument \<open>pa_now\<close> of the
  operations below.\<close>

record WsState =
  errcode :: int
  weber_error :: int
  channels :: "Channels option"
  stream :: "nat option"

text \<open>What C leaves undefined and a claim depends on is a value: reading through a
  NULL pointer, and indexing the channel array with an index the caller chose outside
  of it.\<close>

datatype fault = NullDeref | OutOfBounds

definition NO_CHANNELS :: int where
  "NO_CHANNELS = - 2"

text \<open>The 32-bit \<open>int\<close> that holds a value: the value itself between \<open>INT_MIN\<close> and
  \<open>INT_MAX\<close>, wrapped around modulo \<open>2^32\<close> outside.\<close>

definition c_int :: "int \<Rightarrow> int" where
  "c_int x = (x + 2 ^ 31) mod 2 ^ 32 - 2 ^ 31"

section \<open>Producer side\<close>

text \<open>Lines 228--238 of \<open>ws_play\<close> and 269--273 of \<open>ws_play_next\<close>: store the sound in
  the producer slot, advance the producer index and wrap it.\<close>

definition store_sound :: "Sounds \<Rightarrow> TimedSound \<Rightarrow> Sounds" where
  "store_sound sounds sound =
     (let s1 = sounds\<lparr>q_data := (q_data sounds)[nat (producer_index sounds) := Some sound]\<rparr>;
          s2 = s1\<lparr>producer_index := producer_index s1 + 1\<rparr>
      in if producer_index s2 = q_len s2 then s2\<lparr>producer_index := 0\<rparr> else s2)"

text \<open>One round of the loop of lines 209--217; \<open>min_done_at\<close> is \<open>None\<close> while it is
  INFINITY.\<close>

definition select_step :: "Sounds list \<Rightarrow> int \<times> PaTime option \<Rightarrow> nat \<Rightarrow> int \<times> PaTime option" where
  "select_step d acc i =
     (let sounds = d ! i in
      if paused sounds \<noteq> 0 then acc
      else if q_data sounds ! nat (producer_index sounds) \<noteq> None then acc
      else if (case snd acc of None \<Rightarrow> True | Some m \<Rightarrow> m > done_at sounds)
           then (int i, Some (done_at sounds))
      else acc)"

definition select_channel :: "Channels \<Rightarrow> int \<Rightarrow> int" where
  "select_channel chs channel =
     fst (foldl (select_step (ch_data chs)) (channel, None) [0..<nat (ch_len chs div 2)])"

definition put_channel :: "WsState \<Rightarrow> Channels \<Rightarrow> int \<Rightarrow> Sounds \<Rightarrow> WsState" where
  "put_channel state chs c sounds =
     state\<lparr>channels := Some (chs\<lparr>ch_data := (ch_data chs)[nat c := sounds]\<rparr>)\<rparr>"

text \<open>Lines 227--242 of \<open>ws_play\<close>: the sound is stored on the channel, with no look
  at what the producer slot holds.\<close>

definition play_on :: "WsState \<Rightarrow> Channels \<Rightarrow> int \<Rightarrow> TimedSound \<Rightarrow> fault + (int \<times> WsState)" where
  "play_on state chs channel sound =
     (if ch_len chs \<le> channel then Inl OutOfBounds
      else Inr (channel,
                put_channel state chs channel
                  (store_sound (ch_data chs ! nat channel) sound)))"

definition ws_play :: "real \<Rightarrow> real \<Rightarrow> int \<Rightarrow> Sound \<Rightarrow> PaTime \<Rightarrow> WsState \<Rightarrow> fault + (int \<times> WsState)" where
  "ws_play now playat channel toplay pa_now state =
     (let time = (pa_now - now) + playat;
          sound = newTimedSound toplay time
      in case channels state of
           None \<Rightarrow> Inl NullDeref
         | Some chs \<Rightarrow>
             if channel < 0 then
               (let chosen = select_channel chs channel in
                if chosen < 0 then Inr (- 1, state\<lparr>weber_error := NO_CHANNELS\<rparr>)
                else play_on state chs chosen sound)
             else play_on state chs channel sound)"

text \<open>Lines 261--265 of \<open>ws_play_next\<close>: a paused channel is unpaused and the sound at
  its consumer slot is marked as played to its end.\<close>

definition force_complete :: "Sounds \<Rightarrow> fault + Sounds" where
  "force_complete sounds =
     (if paused sounds \<noteq> 0 then
        (case q_data sounds ! nat (consumer_index sounds) of
           None \<Rightarrow> Inl NullDeref
         | Some paused_sound \<Rightarrow>
             Inr (sounds\<lparr>q_data := (q_data sounds)[nat (consumer_index sounds) :=
                                  Some (paused_sound\<lparr>ts_offset := ts_len paused_sound\<rparr>)],
                         paused := 0\<rparr>))
      else Inr sounds)"

definition ws_play_next :: "real \<Rightarrow> int \<Rightarrow> Sound \<Rightarrow> PaTime \<Rightarrow> WsState \<Rightarrow> fault + (real \<times> WsState)" where
  "ws_play_next now channel toplay pa_now state =
     (case channels state of
        None \<Rightarrow> Inl NullDeref
      | Some chs \<Rightarrow>
          let c = ch_len chs div 2 + channel;
              sound = newTimedSound toplay (- 1)
          in if c < 0 \<or> ch_len chs \<le> c then Inl OutOfBounds
             else (case force_complete (ch_data chs ! nat c) of
                     Inl f \<Rightarrow> Inl f
                   | Inr sounds \<Rightarrow>
                       let finish = done_at sounds + real_of_int (snd_len toplay) * samplelen chs in
                       if q_data sounds ! nat (producer_index sounds) = None
                       then Inr ((finish - pa_now) + now,
                                 put_channel state chs c (store_sound sounds sound))
                       else Inr (- 1, put_channel state chs c sounds)))"

text \<open>\<open>ws_warn_str\<close>: \<open>fmt\<close> is what \<open>snprintf\<close> prints for \<open>%3.2f\<close>; the static buffer
  of 100 bytes keeps 99 characters. Line 284 negates the field as an \<open>int\<close>, before the
  product with \<open>samplelen\<close> makes it a \<open>double\<close>.\<close>

definition ws_warn_str :: "(real \<Rightarrow> string) \<Rightarrow> WsState \<Rightarrow> string \<times> WsState" where
  "ws_warn_str fmt state =
     (case channels state of
        None \<Rightarrow> ([], state)
      | Some chs \<Rightarrow>
          if playback_error chs < 0 then
            let latency = real_of_int (c_int (- playback_error chs)) * samplelen chs in
            (take 99 (''A previously played sound occured '' @ fmt (latency * 1000)
                      @ ''ms after it should have.''),
             state\<lparr>channels := Some (chs\<lparr>playback_error := 0\<rparr>)\<rparr>)
          else ([], state))"

text \<open>\<open>ws_pause\<close>: the write \<open>data[i].paused = pause\<close> at an index the caller chose.\<close>

definition set_paused :: "Sounds list \<Rightarrow> int \<Rightarrow> int \<Rightarrow> fault + Sounds list" where
  "set_paused d i pause =
     (if 0 \<le> i \<and> i < int (length d) then Inr (d[nat i := (d ! nat i)\<lparr>paused := pause\<rparr>])
      else Inl OutOfBounds)"

definition ws_pause :: "WsState \<Rightarrow> int \<Rightarrow> int \<Rightarrow> int \<Rightarrow> fault + WsState" where
  "ws_pause state channel isstream pause =
     (case channels state of
        None \<Rightarrow> Inl NullDeref
      | Some chs \<Rightarrow>
          let d1 = (if channel < 0 then map (\<lambda>s. s\<lparr>paused := pause\<rparr>) (ch_data chs)
                    else ch_data chs);
              i = (if isstream \<noteq> 0 then ch_len chs div 2 + channel else channel)
          in (case set_paused d1 i pause of
                Inl f \<Rightarrow> Inl f
              | Inr d2 \<Rightarrow> Inr (state\<lparr>channels := Some (chs\<lparr>ch_data := d2\<rparr>)\<rparr>)))"

section \<open>Consumer side: the mixing callback\<close>

record PaStreamCallbackTimeInfo =
  inputBufferAdcTime :: PaTime
  currentTime :: PaTime
  outputBufferDacTime :: PaTime

text \<open>What stays fixed during one call of \<open>ws_callback\<close>: \<open>len\<close>,
  \<open>buffer_start\<close>, and the \<open>samplerate\<close> and \<open>samplelen\<close> of the channels.\<close>

record callback_args =
  cb_len :: nat
  buffer_start :: PaTime
  cb_samplerate :: real
  cb_samplelen :: real

text \<open>The variables the callback changes as it goes: the output buffer, \<open>outi\<close>,
  \<open>should_start\<close> (declared once for the whole call), \<open>zero_padding\<close> and
  \<open>channels->playback_error\<close>.\<close>

record cb_locals =
  output_buffer :: "int \<Rightarrow> Int16"
  outi :: int
  should_start :: bool
  zero_padding :: int
  cb_error :: int

text \<open>Lines 130--133.\<close>

primrec zero_output :: "nat \<Rightarrow> (int \<Rightarrow> Int16) \<Rightarrow> (int \<Rightarrow> Int16)" where
  "zero_output 0 out = out"
| "zero_output (Suc k) out = (zero_output k out)(2 * int k := 0, 2 * int k + 1 := 0)"

text \<open>Lines 151--173: where the sound at the head starts, if it has not started.\<close>

definition start_sound :: "callback_args \<Rightarrow> TimedSound \<Rightarrow> Sounds \<times> cb_locals \<Rightarrow> Sounds \<times> cb_locals" where
  "start_sound env sound st =
     (let sounds = fst st; loc = snd st in
      if ts_offset sound = 0 then
        if ts_start sound > 0 then
          if buffer_start env + cb_samplelen env * real (cb_len env) > ts_start sound then
            (let pad = \<lfloor>(ts_start sound - buffer_start env) * cb_samplerate env\<rfloor>;
                 finish = ts_start sound + real_of_int (ts_len sound) * cb_samplelen env
             in if pad < outi loc then
                  (sounds\<lparr>done_at := buffer_start env + real_of_int (outi loc) * cb_samplelen env
                                      + real_of_int (ts_len sound) * cb_samplelen env\<rparr>,
                   loc\<lparr>should_start := True, zero_padding := outi loc,
                       cb_error := pad - outi loc\<rparr>)
                else (sounds\<lparr>done_at := finish\<rparr>,
                      loc\<lparr>should_start := True, zero_padding := pad\<rparr>))
          else (sounds, loc\<lparr>outi := int (cb_len env)\<rparr>)
        else (sounds\<lparr>done_at := buffer_start env + real_of_int (zero_padding loc) * cb_samplelen env
                                 + real_of_int (ts_len sound) * cb_samplelen env\<rparr>,
              loc\<lparr>should_start := True, zero_padding := outi loc\<rparr>)
      else st)"

text \<open>Lines 178--181, and their body, lines 179--180: the samples of the left channel
  are the first \<open>len\<close> of the sound's buffer, those of the right channel the next
  \<open>len\<close>; the output is interleaved (\<open>outi<<1\<close> is \<open>2 * outi\<close>).\<close>

definition mix_frame :: "int \<Rightarrow> TimedSound \<Rightarrow> int \<Rightarrow> int \<Rightarrow> (int \<Rightarrow> Int16) \<Rightarrow> (int \<Rightarrow> Int16)" where
  "mix_frame pad sound off i out =
     (let o1 = out(2 * i := out (2 * i) + ts_buffer sound (i - pad + off))
      in o1(2 * i + 1 := o1 (2 * i + 1) + ts_buffer sound (i - pad + ts_len sound + off)))"

function mix_loop :: "int \<Rightarrow> int \<Rightarrow> TimedSound \<Rightarrow> int \<Rightarrow> int \<Rightarrow> (int \<Rightarrow> Int16) \<Rightarrow> int \<times> (int \<Rightarrow> Int16)" where
  "mix_loop n pad sound off i out =
     (if i < n \<and> i - pad < ts_len sound - off
      then mix_loop n pad sound off (i + 1) (mix_frame pad sound off i out)
      else (i, out))"
  by pat_completeness auto
termination
  by (relation "measure (\<lambda>(n, pad, sound, off, i, out). nat (n - i))") auto

declare mix_loop.simps [simp del]

text \<open>Lines 176--183: the sound with its new offset, and the locals. The sum of line
  182 is stored in the \<open>int\<close> field \<open>offset\<close>.\<close>

definition sum_samples :: "callback_args \<Rightarrow> TimedSound \<Rightarrow> cb_locals \<Rightarrow> TimedSound \<times> cb_locals" where
  "sum_samples env sound loc =
     (let off = ts_offset sound in
      if (off > 0 \<or> should_start loc) \<and> off < ts_len sound then
        (let r = mix_loop (int (cb_len env)) (zero_padding loc) sound off (zero_padding loc)
                   (output_buffer loc)
         in (sound\<lparr>ts_offset := c_int (int (cb_len env) - zero_padding loc + off)\<rparr>,
             loc\<lparr>outi := fst r, output_buffer := snd r\<rparr>))
      else (sound, loc))"

text \<open>Lines 186--192: a sound played to its end leaves the ring; otherwise the slot
  holds the sound with its new offset.\<close>

definition remove_done :: "TimedSound \<Rightarrow> Sounds \<Rightarrow> Sounds" where
  "remove_done sound sounds =
     (if ts_offset sound \<ge> ts_len sound then
        (let old_index = consumer_index sounds;
             s1 = sounds\<lparr>consumer_index := consumer_index sounds + 1\<rparr>;
             s2 = (if consumer_index s1 = q_len s1 then s1\<lparr>consumer_index := 0\<rparr> else s1)
         in s2\<lparr>q_data := (q_data s2)[nat old_index := None]\<rparr>)
      else sounds\<lparr>q_data := (q_data sounds)[nat (consumer_index sounds) := Some sound]\<rparr>)"

text \<open>One round of the loop of lines 150--193, for the sound at the head.\<close>

definition consume_step :: "callback_args \<Rightarrow> TimedSound \<Rightarrow> Sounds \<times> cb_locals \<Rightarrow> Sounds \<times> cb_locals" where
  "consume_step env sound st =
     (let st1 = start_sound env sound st;
          r = sum_samples env sound (snd st1)
      in (remove_done (fst r) (fst st1), snd r))"

text \<open>The loop of lines 150--193. It may not return (a sound with a negative offset is
  never started, summed or removed), so its result is optional.\<close>

partial_function (option) consume :: "callback_args \<Rightarrow> Sounds \<times> cb_locals \<Rightarrow> (Sounds \<times> cb_locals) option" where
  "consume env st =
     (case q_data (fst st) ! nat (consumer_index (fst st)) of
        None \<Rightarrow> Some st
      | Some sound \<Rightarrow>
          if outi (snd st) < int (cb_len env) then consume env (consume_step env sound st)
          else Some st)"

declare consume.simps [code]

text \<open>Lines 139--193, the body of the loop over the channels.\<close>

definition process_channel :: "callback_args \<Rightarrow> Sounds \<Rightarrow> cb_locals \<Rightarrow> (Sounds \<times> cb_locals) option" where
  "process_channel env sounds loc =
     (if paused sounds \<noteq> 0 then Some (sounds, loc)
      else consume env
             (if q_data sounds ! nat (consumer_index sounds) = None
              then sounds\<lparr>done_at := buffer_start env + cb_samplelen env * real (cb_len env)\<rparr>
              else sounds,
              loc\<lparr>zero_padding := 0, outi := 0\<rparr>))"

fun channel_loop :: "callback_args \<Rightarrow> Sounds list \<Rightarrow> cb_locals \<Rightarrow> (Sounds list \<times> cb_locals) option" where
  "channel_loop env [] loc = Some ([], loc)"
| "channel_loop env (sounds # rest) loc =
     (case process_channel env sounds loc of
        None \<Rightarrow> None
      | Some (sounds1, loc1) \<Rightarrow>
          (case channel_loop env rest loc1 of
             None \<Rightarrow> None
           | Some (rest1, loc2) \<Rightarrow> Some (sounds1 # rest1, loc2)))"

text \<open>\<open>ws_callback\<close>: the return value 0, the output buffer and the channels. The
  arguments \<open>in\<close> and \<open>status_flags\<close> are not read.\<close>

definition ws_callback :: "(int \<Rightarrow> Int16) \<Rightarrow> nat \<Rightarrow> PaStreamCallbackTimeInfo \<Rightarrow> Channels \<Rightarrow> (int \<times> (int \<Rightarrow> Int16) \<times> Channels) option" where
  "ws_callback out n time_info chs =
     (let env = \<lparr>cb_len = n, buffer_start = outputBufferDacTime time_info,
                 cb_samplerate = samplerate chs, cb_samplelen = samplelen chs\<rparr>;
          chs1 = chs\<lparr>last_latency := outputBufferDacTime time_info - currentTime time_info,
                     last_buffer_size := n\<rparr>;
          loc0 = \<lparr>output_buffer = zero_output n out, outi = int n, should_start = False,
                  zero_padding = 0, cb_error = playback_error chs1\<rparr>
      in case channel_loop env (ch_data chs1) loc0 of
           None \<Rightarrow> None
         | Some (d, loc) \<Rightarrow> Some (0, output_buffer loc, chs1\<lparr>ch_data := d, playback_error := cb_error loc\<rparr>))"

section \<open>Predicates of the statements\<close>

text \<open>
  The two tests of lines 211--212: \<open>ws_play\<close> without a channel looks at channel \<open>i\<close>
  only when it is not paused and its producer slot is empty. \<open>best_of\<close> is what the
  scan holds after \<open>n\<close> channels, when one of them passed the tests.
\<close>

definition accepts :: "Sounds list \<Rightarrow> nat \<Rightarrow> bool" where
  "accepts d i \<longleftrightarrow> paused (d ! i) = 0 \<and> q_data (d ! i) ! nat (producer_index (d ! i)) = None"

definition best_of :: "Sounds list \<Rightarrow> nat \<Rightarrow> int \<times> PaTime option \<Rightarrow> bool" where
  "best_of d n acc \<longleftrightarrow>
     0 \<le> fst acc \<and> nat (fst acc) < n \<and> accepts d (nat (fst acc)) \<and>
     snd acc = Some (done_at (d ! nat (fst acc))) \<and>
     (\<forall>j<n. accepts d j \<longrightarrow> done_at (d ! nat (fst acc)) \<le> done_at (d ! j)) \<and>
     (\<forall>j<nat (fst acc). accepts d j \<longrightarrow> done_at (d ! nat (fst acc)) < done_at (d ! j))"

text \<open>
  The states the engine keeps between calls, for callbacks of \<open>n\<close> frames: an offset
  lies between 0 and the length of its sound, the consumer index lies in the ring, and
  \<open>samplelen\<close> is \<open>1 / samplerate\<close> as \<open>newChannels\<close> sets it. A sound is short
  enough for its length plus one buffer to fit a 32-bit \<open>int\<close>, so that the sum of
  line 182 does not wrap.
\<close>

definition wf_sound :: "nat \<Rightarrow> TimedSound \<Rightarrow> bool" where
  "wf_sound n s \<longleftrightarrow> 0 \<le> ts_offset s \<and> ts_offset s \<le> ts_len s \<and> ts_len s + int n < 2 ^ 31"

definition wf_slot :: "nat \<Rightarrow> TimedSound option \<Rightarrow> bool" where
  "wf_slot n x = (case x of None \<Rightarrow> True | Some s \<Rightarrow> wf_sound n s)"

definition wf_sounds :: "nat \<Rightarrow> Sounds \<Rightarrow> bool" where
  "wf_sounds n q \<longleftrightarrow>
     0 \<le> consumer_index q \<and> consumer_index q < q_len q \<and> list_all (wf_slot n) (q_data q)"

definition wf_channels :: "nat \<Rightarrow> Channels \<Rightarrow> bool" where
  "wf_channels n chs \<longleftrightarrow>
     0 < samplerate chs \<and> samplelen chs = 1 / samplerate chs \<and>
     list_all (wf_sounds n) (ch_data chs)"

text \<open>
  How one slot of a ring may differ after a callback: it is empty, or it holds the
  sound it held, with an offset that is not smaller, is at most the sound's length, and
  is below that length when it has changed. \<open>channel_advanced\<close> says it of a whole
  queue, with the flags the callback leaves alone, and that a sound already at its end
  at the head of a queue that is not paused is gone after a callback of \<open>n > 0\<close>
  frames.
\<close>

definition advanced :: "TimedSound option \<Rightarrow> TimedSound option \<Rightarrow> bool" where
  "advanced before after =
     (case after of
        None \<Rightarrow> True
      | Some s' \<Rightarrow>
          (case before of
             None \<Rightarrow> False
           | Some s \<Rightarrow> ts_buffer s' = ts_buffer s \<and> ts_start s' = ts_start s \<and>
                       ts_len s' = ts_len s \<and>
                       ts_offset s \<le> ts_offset s' \<and> ts_offset s' \<le> ts_len s \<and>
                       (ts_offset s' = ts_offset s \<or> ts_offset s' < ts_len s)))"

definition channel_advanced :: "nat \<Rightarrow> Sounds \<Rightarrow> Sounds \<Rightarrow> bool" where
  "channel_advanced n q q' \<longleftrightarrow>
     paused q' = paused q \<and> producer_index q' = producer_index q \<and>
     list_all2 advanced (q_data q) (q_data q') \<and>
     (case q_data q ! nat (consumer_index q) of
        None \<Rightarrow> True
      | Some s \<Rightarrow> paused q = 0 \<and> 0 < n \<and> ts_len s \<le> ts_offset s
                  \<longrightarrow> q_data q' ! nat (consumer_index q) = None)"

text \<open>
  The number of occupied slots of a ring: what the loop of \<open>consume\<close> lowers.
\<close>

definition occupied :: "TimedSound option list \<Rightarrow> nat" where
  "occupied xs = length (filter (\<lambda>x. x \<noteq> None) xs)"

text \<open>
  The output buffer once the frames \<open>lo\<close> to \<open>hi - 1\<close> of a sound have been
  added to it as lines 179--180 do: to the left sample of frame \<open>i\<close> the sample
  \<open>i - pad + off\<close> of the sound, to the right sample the sample \<open>i - pad + len + off\<close>.
  A channel is idle when it is paused or its head slot is empty; \<open>same_mix\<close> relates
  the callback's variables before and after such a channel.
\<close>

definition mixed :: "(int \<Rightarrow> Int16) \<Rightarrow> TimedSound \<Rightarrow> int \<Rightarrow> int \<Rightarrow> int \<Rightarrow> int \<Rightarrow> (int \<Rightarrow> Int16)" where
  "mixed out sound pad off lo hi =
     (\<lambda>k. if 2 * lo \<le> k \<and> k < 2 * hi
          then out k + (if even k then ts_buffer sound (k div 2 - pad + off)
                        else ts_buffer sound (k div 2 - pad + ts_len sound + off))
          else out k)"

definition idle :: "Sounds \<Rightarrow> bool" where
  "idle q \<longleftrightarrow> paused q \<noteq> 0 \<or> q_data q ! nat (consumer_index q) = None"

definition same_mix :: "cb_locals \<Rightarrow> cb_locals \<Rightarrow> bool" where
  "same_mix loc loc' \<longleftrightarrow>
     output_buffer loc' = output_buffer loc \<and> should_start loc' = should_start loc \<and>
     cb_error loc' = cb_error loc"

section \<open>Concrete states\<close>

text \<open>
  An engine as \<open>ws_setup\<close> builds it for a sample rate of 4 frames per second, with
  one one-shot channel of capacity 1 (channel 0) and one streaming channel (channel 1);
  \<open>stereo_state\<close> has two of each. \<open>tone\<close> has 3 frames of the sample 10,
  \<open>chirp\<close> 2 frames of the sample 1.
\<close>

definition fresh_state :: WsState where
  "fresh_state =
     \<lparr>errcode = 0, weber_error = 0, channels = Some (newChannels 4 1 1), stream = None\<rparr>"

definition stereo_state :: WsState where
  "stereo_state =
     \<lparr>errcode = 0, weber_error = 0, channels = Some (newChannels 4 2 1), stream = None\<rparr>"

definition tone :: Sound where
  "tone = \<lparr>snd_buffer = (\<lambda>k. 10), snd_len = 3\<rparr>"

definition chirp :: Sound where
  "chirp = \<lparr>snd_buffer = (\<lambda>k. 1), snd_len = 2\<rparr>"

text \<open>
  The engine after the callback has recorded a sound that started 5 frames late.
\<close>

definition late_state :: WsState where
  "late_state =
     \<lparr>errcode = 0, weber_error = 0,
      channels = Some ((newChannels 4 1 1)\<lparr>playback_error := - 5\<rparr>), stream = None\<rparr>"

text \<open>
  The engine after the callback has recorded a sound that started \<open>2^31\<close> frames late:
  the field holds \<open>INT_MIN\<close>.
\<close>

definition very_late_state :: WsState where
  "very_late_state =
     \<lparr>errcode = 0, weber_error = 0,
      channels = Some ((newChannels 4 1 1)\<lparr>playback_error := - 2147483648\<rparr>), stream = None\<rparr>"


text \<open>
  A sound one frame short of \<open>INT_MAX\<close> frames, one frame before its end.
\<close>

definition long_sound :: TimedSound where
  "long_sound = \<lparr>ts_buffer = (\<lambda>k. 0), ts_start = - 1, ts_offset = 2147483646,
                  ts_len = 2147483647\<rparr>"

text \<open>
  Queues with sounds in them: \<open>one_queued\<close> after \<open>tone\<close> was played on channel 0
  at time 1; \<open>two_queued\<close> with \<open>chirp\<close> at time 1 on channel 0 and \<open>tone\<close> at time 2
  on channel 1; \<open>late_queued\<close> with \<open>tone\<close> at time 1/2; a streaming channel
  paused while \<open>playing\<close> is at frame 10 of 50, the same channel once
  \<open>ws_play_next\<close> has been called on it, and a full one; one-shot channels that are
  paused or full, and idle ones. \<open>buffer_at t\<close> is the timing of a callback whose
  buffer starts at \<open>t\<close>.
\<close>

definition one_queued :: WsState where
  "one_queued =
     fresh_state\<lparr>channels := Some ((newChannels 4 1 1)\<lparr>ch_data :=
        [(newSounds 1)\<lparr>q_data := [Some (newTimedSound tone 1)]\<rparr>, newSounds 2]\<rparr>)\<rparr>"

definition two_queued :: Channels where
  "two_queued =
     (newChannels 4 2 1)\<lparr>ch_data :=
        [(newSounds 1)\<lparr>q_data := [Some (newTimedSound chirp 1)]\<rparr>,
         (newSounds 1)\<lparr>q_data := [Some (newTimedSound tone 2)]\<rparr>,
         newSounds 2, newSounds 2]\<rparr>"

definition late_queued :: Channels where
  "late_queued =
     (newChannels 4 1 1)\<lparr>ch_data :=
        [(newSounds 1)\<lparr>q_data := [Some (newTimedSound tone (1 / 2))]\<rparr>, newSounds 2]\<rparr>"

definition playing :: TimedSound where
  "playing = \<lparr>ts_buffer = (\<lambda>k. 10), ts_start = - 1, ts_offset = 10, ts_len = 50\<rparr>"

definition paused_stream :: Channels where
  "paused_stream =
     (newChannels 4 1 1)\<lparr>ch_data :=
        [newSounds 1,
         (newSounds 2)\<lparr>q_data := [Some playing, None], paused := 1, producer_index := 1\<rparr>]\<rparr>"

definition completed_stream :: Channels where
  "completed_stream =
     (newChannels 4 1 1)\<lparr>ch_data :=
        [newSounds 1,
         (newSounds 2)\<lparr>q_data := [Some (playing\<lparr>ts_offset := 50\<rparr>),
                                   Some (newTimedSound chirp (- 1))]\<rparr>]\<rparr>"

definition full_stream :: Channels where
  "full_stream =
     (newChannels 4 1 1)\<lparr>ch_data :=
        [newSounds 1,
         (newSounds 2)\<lparr>q_data := [Some playing, Some (newTimedSound tone (- 1))]\<rparr>]\<rparr>"

definition busy_oneshots :: Channels where
  "busy_oneshots =
     (newChannels 4 2 1)\<lparr>ch_data :=
        [(newSounds 1)\<lparr>paused := 1\<rparr>,
         (newSounds 1)\<lparr>q_data := [Some (newTimedSound tone 1)]\<rparr>,
         newSounds 2, newSounds 2]\<rparr>"

definition idle_oneshots :: Channels where
  "idle_oneshots =
     (newChannels 4 2 1)\<lparr>ch_data :=
        [(newSounds 1)\<lparr>done_at := 3\<rparr>, (newSounds 1)\<lparr>done_at := 5\<rparr>,
         newSounds 2, newSounds 2]\<rparr>"

definition buffer_at :: "PaTime \<Rightarrow> PaStreamCallbackTimeInfo" where
  "buffer_at t = \<lparr>inputBufferAdcTime = 0, currentTime = t, outputBufferDacTime = t\<rparr>"

text \<open>
  Scenario A of the specification: a sound of 100 frames, due at time 1, alone in the
  engine.
\<close>

definition hundred :: "(int \<Rightarrow> Int16) \<Rightarrow> TimedSound" where
  "hundred buf = \<lparr>ts_buffer = buf, ts_start = 1, ts_offset = 0, ts_len = 100\<rparr>"

definition scenario_A :: "(int \<Rightarrow> Int16) \<Rightarrow> Channels" where
  "scenario_A buf =
     (newChannels 4 1 1)\<lparr>ch_data := [(newSounds 1)\<lparr>q_data := [Some (hundred buf)]\<rparr>, newSounds 2]\<rparr>"

section \<open>Auxiliary facts\<close>

lemma newSounds_1: "newSounds 1 =
    \<lparr>q_data = [None], paused = 0, consumer_index = 0, producer_index = 0, done_at = 0\<rparr>"
  by (simp add: newSounds_def)

lemma newSounds_2: "newSounds 2 =
    \<lparr>q_data = [None, None], paused = 0, consumer_index = 0, producer_index = 0, done_at = 0\<rparr>"
  by (simp add: newSounds_def numeral_2_eq_2)

lemma put_channel_same:
  "channels state = Some chs \<Longrightarrow> put_channel state chs c (ch_data chs ! nat c) = state"
  by (simp add: put_channel_def)

lemma channel_of_put_channel:
  "0 \<le> c \<Longrightarrow> c < ch_len chs \<Longrightarrow>
   channels (put_channel state chs c sounds) = Some (chs\<lparr>ch_data := (ch_data chs)[nat c := sounds]\<rparr>) \<and>
   ch_data (chs\<lparr>ch_data := (ch_data chs)[nat c := sounds]\<rparr>) ! nat c = sounds"
  by (simp add: put_channel_def ch_len_def)

lemma store_sound_other_slot:
  "nat (producer_index sounds) \<noteq> i \<Longrightarrow>
   q_data (store_sound sounds sound) ! i = q_data sounds ! i"
  by (simp add: store_sound_def Let_def)

lemma store_sound_fields:
  "paused (store_sound sounds sound) = paused sounds \<and>
   consumer_index (store_sound sounds sound) = consumer_index sounds \<and>
   done_at (store_sound sounds sound) = done_at sounds"
  by (simp add: store_sound_def Let_def)

lemma c_int_id: "- (2 ^ 31) \<le> x \<Longrightarrow> x < 2 ^ 31 \<Longrightarrow> c_int x = x"
  by (simp add: c_int_def)

lemmas cb_eval = c_int_def ws_callback_def process_channel_def consume.simps consume_step_def
  start_sound_def sum_samples_def remove_done_def q_len_def mix_loop.simps mix_frame_def Let_def
  newChannels_def newSounds_1 newSounds_2 newTimedSound_def buffer_at_def

section \<open>The timing warning\<close>

text \<open>
  \<open>ws_warn_str\<close> reads and clears the timing error. While the field is negative, the
  call returns a warning that is not empty, made of the text printed for the \<open>int\<close>
  \<open>-playback_error\<close> times \<open>samplelen * 1000\<close>, and sets the field to 0, so that the
  call that follows at once returns the empty string. While the field is 0 or positive,
  the call returns the empty string and changes nothing. For every negative value but
  \<open>INT_MIN\<close> the negation is the lateness.
\<close>

lemma ws_warn_str_read_and_clear:
  "channels state = Some chs \<Longrightarrow>
   (playback_error chs < 0 \<longrightarrow>
      fst (ws_warn_str fmt state) =
        take 99 (''A previously played sound occured ''
                 @ fmt (real_of_int (c_int (- playback_error chs)) * samplelen chs * 1000)
                 @ ''ms after it should have.'') \<and>
      fst (ws_warn_str fmt state) \<noteq> [] \<and>
      snd (ws_warn_str fmt state) = state\<lparr>channels := Some (chs\<lparr>playback_error := 0\<rparr>)\<rparr> \<and>
      ws_warn_str fmt (snd (ws_warn_str fmt state)) = ([], snd (ws_warn_str fmt state))) \<and>
   (0 \<le> playback_error chs \<longrightarrow> ws_warn_str fmt state = ([], state)) \<and>
   (- (2 ^ 31) < playback_error chs \<and> playback_error chs < 0 \<longrightarrow>
      c_int (- playback_error chs) = - playback_error chs)"
  by (simp add: ws_warn_str_def Let_def c_int_id)

lemma ws_warn_str_five_frames_late:
  "ws_warn_str fmt late_state =
     (take 99 (''A previously played sound occured '' @ fmt 1250 @ ''ms after it should have.''),
      fresh_state) \<and>
   ws_warn_str fmt fresh_state = ([], fresh_state)"
  by (simp add: ws_warn_str_def Let_def c_int_def late_state_def fresh_state_def newChannels_def)

text \<open>
  The callback records \<open>INT_MIN\<close> for a sound that is \<open>2^31\<close> frames late: \<open>tone\<close>,
  played at time 1 on channel 0, in the buffer that starts at 536870913 at 4 frames per
  second.
\<close>

lemma ws_callback_records_int_min:
  "(case ws_callback (\<lambda>k. 0) 2 (buffer_at 536870913)
           ((newChannels 4 1 1)\<lparr>ch_data :=
              [(newSounds 1)\<lparr>q_data := [Some (newTimedSound tone 1)]\<rparr>, newSounds 2]\<rparr>) of
      None \<Rightarrow> False
    | Some (r, out', chs') \<Rightarrow>
        playback_error chs' = - 2147483648 \<and>
        q_data (ch_data chs' ! 0) = [Some ((newTimedSound tone 1)\<lparr>ts_offset := 2\<rparr>)])"
  by (simp add: tone_def cb_eval numeral_eq_Suc)

text \<open>
  C9. The warning does not describe the lateness when the field holds \<open>INT_MIN\<close>, the
  value the callback records for a sound that is \<open>2^31\<close> frames late. Line 284 negates
  the field as an \<open>int\<close>, and the negation of \<open>INT_MIN\<close> is \<open>INT_MIN\<close>: at 4 frames per
  second the sound was 536870912000 ms late, and the warning is the text printed for
  \<open>-536870912000\<close> ms, a sound that played before it should have. The field is
  cleared as for every other negative value.
\<close>

theorem ws_warn_str_int_min:
  "channels very_late_state = Some ((newChannels 4 1 1)\<lparr>playback_error := - 2147483648\<rparr>) \<and>
   real_of_int (- (- 2147483648)) * samplelen (newChannels 4 1 1) * 1000 = 536870912000 \<and>
   ws_warn_str fmt very_late_state =
     (take 99 (''A previously played sound occured '' @ fmt (- 536870912000)
               @ ''ms after it should have.''),
      fresh_state)"
  by (simp add: ws_warn_str_def Let_def c_int_def very_late_state_def fresh_state_def
      newChannels_def)

section \<open>The streaming enqueue\<close>

text \<open>
  C10. \<open>ws_play_next\<close> on a streaming channel that is paused while its consumer slot is
  empty reads \<open>paused_sound->len\<close> through the NULL pointer of that slot: the call ends
  in the fault. The state is reachable: \<open>ws_pause\<close> on a streaming channel on which
  nothing has been queued gives it.
\<close>

theorem ws_play_next_null_head:
  "channels state = Some chs \<Longrightarrow>
   0 \<le> ch_len chs div 2 + channel \<Longrightarrow> ch_len chs div 2 + channel < ch_len chs \<Longrightarrow>
   paused (ch_data chs ! nat (ch_len chs div 2 + channel)) \<noteq> 0 \<Longrightarrow>
   q_data (ch_data chs ! nat (ch_len chs div 2 + channel))
     ! nat (consumer_index (ch_data chs ! nat (ch_len chs div 2 + channel))) = None \<Longrightarrow>
   ws_play_next now channel toplay pa_now state = Inl NullDeref"
  by (simp add: ws_play_next_def force_complete_def Let_def)

theorem ws_play_next_null_head_witness:
  "(case ws_pause fresh_state 0 1 1 of
      Inl f \<Rightarrow> False
    | Inr state \<Rightarrow>
        (case channels state of None \<Rightarrow> False
         | Some chs \<Rightarrow> paused (ch_data chs ! 1) \<noteq> 0 \<and> q_data (ch_data chs ! 1) ! 0 = None) \<and>
        ws_play_next 0 0 tone 0 state = Inl NullDeref)"
proof -
  let ?chs = "(newChannels 4 1 1)\<lparr>ch_data := [newSounds 1, (newSounds 2)\<lparr>paused := 1\<rparr>]\<rparr>"
  let ?st = "fresh_state\<lparr>channels := Some ?chs\<rparr>"
  have p: "ws_pause fresh_state 0 1 1 = Inr ?st"
    by (simp add: ws_pause_def fresh_state_def newChannels_def set_paused_def ch_len_def)
  have "ws_play_next 0 0 tone 0 ?st = Inl NullDeref"
    by (rule ws_play_next_null_head [of ?st ?chs]) (simp_all add: ch_len_def newSounds_def)
  with p show ?thesis by (simp add: newSounds_def)
qed

text \<open>
  C6. \<open>ws_play_next\<close> on a streaming channel that is paused and holds a sound, any
  sound \<open>head_sound\<close>, at its consumer slot: lines 261--265 set that sound's offset to
  its length and clear the paused flag before the producer slot is looked at, and after
  the call the channel is not paused and its consumer slot holds the sound with
  \<open>offset = len\<close>, whether or not the new sound was stored.
\<close>

theorem ws_play_next_force_complete:
  assumes chs: "channels state = Some chs"
    and c: "c = ch_len chs div 2 + channel" "0 \<le> c" "c < ch_len chs"
    and sounds: "sounds = ch_data chs ! nat c"
    and paused: "paused sounds \<noteq> 0"
    and idx: "0 \<le> consumer_index sounds" "consumer_index sounds < q_len sounds"
    and head: "q_data sounds ! nat (consumer_index sounds) = Some head_sound"
  shows "force_complete sounds =
           Inr (sounds\<lparr>q_data := (q_data sounds)[nat (consumer_index sounds) :=
                                    Some (head_sound\<lparr>ts_offset := ts_len head_sound\<rparr>)],
                       paused := 0\<rparr>) \<and>
         (\<exists>r state' chs'.
            ws_play_next now channel toplay pa_now state = Inr (r, state') \<and>
            channels state' = Some chs' \<and>
            paused (ch_data chs' ! nat c) = 0 \<and>
            consumer_index (ch_data chs' ! nat c) = consumer_index sounds \<and>
            q_data (ch_data chs' ! nat c) ! nat (consumer_index sounds)
              = Some (head_sound\<lparr>ts_offset := ts_len head_sound\<rparr>))"
proof -
  let ?done = "head_sound\<lparr>ts_offset := ts_len head_sound\<rparr>"
  let ?s1 = "sounds\<lparr>q_data := (q_data sounds)[nat (consumer_index sounds) := Some ?done],
                    paused := 0\<rparr>"
  have fc: "force_complete sounds = Inr ?s1"
    using paused head by (simp add: force_complete_def)
  have in_range: "nat (consumer_index sounds) < length (q_data sounds)"
    using idx by (simp add: q_len_def)
  have head1: "q_data ?s1 ! nat (consumer_index sounds) = Some ?done"
    using in_range by simp
  show ?thesis
  proof (cases "q_data ?s1 ! nat (producer_index ?s1)")
    case None
    then have ne: "nat (producer_index ?s1) \<noteq> nat (consumer_index sounds)"
      using head1 by auto
    let ?s2 = "store_sound ?s1 (newTimedSound toplay (- 1))"
    have r: "ws_play_next now channel toplay pa_now state =
               Inr ((done_at ?s1 + real_of_int (snd_len toplay) * samplelen chs - pa_now) + now,
                    put_channel state chs c ?s2)"
      using chs c sounds fc None by (simp add: ws_play_next_def Let_def)
    have "q_data ?s2 ! nat (consumer_index sounds) = Some ?done"
      using store_sound_other_slot [OF ne] head1 by simp
    moreover have "paused ?s2 = 0" "consumer_index ?s2 = consumer_index sounds"
      using store_sound_fields [of ?s1] by simp_all
    ultimately show ?thesis
      using fc r channel_of_put_channel [OF c(2,3), of state ?s2] by simp
  next
    case (Some other)
    then have r: "ws_play_next now channel toplay pa_now state =
               Inr (- 1, put_channel state chs c ?s1)"
      using chs c sounds fc by (simp add: ws_play_next_def Let_def)
    show ?thesis
      using fc r head1 channel_of_put_channel [OF c(2,3), of state ?s1] by simp
  qed
qed

theorem ws_play_next_force_complete_witness:
  "channels (fresh_state\<lparr>channels := Some paused_stream\<rparr>) = Some paused_stream \<and>
   paused (ch_data paused_stream ! 1) \<noteq> 0 \<and>
   q_data (ch_data paused_stream ! 1) ! 0 = Some playing \<and>
   ts_offset playing = 10 \<and> ts_len playing = 50 \<and>
   (\<exists>r state' chs'.
      ws_play_next 0 0 chirp 0 (fresh_state\<lparr>channels := Some paused_stream\<rparr>) = Inr (r, state') \<and>
      channels state' = Some chs' \<and>
      paused (ch_data chs' ! 1) = 0 \<and>
      q_data (ch_data chs' ! 1) ! 0 = Some (playing\<lparr>ts_offset := 50\<rparr>))"
proof -
  let ?st = "fresh_state\<lparr>channels := Some paused_stream\<rparr>"
  let ?q = "ch_data paused_stream ! 1"
  have q: "?q = (newSounds 2)\<lparr>q_data := [Some playing, None], paused := 1, producer_index := 1\<rparr>"
    by (simp add: paused_stream_def)
  have len: "ch_len paused_stream = 2"
    by (simp add: paused_stream_def ch_len_def)
  have h: "channels ?st = Some paused_stream" "(1::int) = ch_len paused_stream div 2 + 0"
    "(0::int) \<le> 1" "1 < ch_len paused_stream" "?q = ch_data paused_stream ! nat 1"
    "paused ?q \<noteq> 0" "0 \<le> consumer_index ?q" "consumer_index ?q < q_len ?q"
    "q_data ?q ! nat (consumer_index ?q) = Some playing"
    by (simp_all add: paused_stream_def ch_len_def newSounds_2 q_len_def)
  from ws_play_next_force_complete [OF h, of 0 chirp 0]
  obtain r state' chs' where
    "ws_play_next 0 0 chirp 0 ?st = Inr (r, state')" "channels state' = Some chs'"
    "paused (ch_data chs' ! nat 1) = 0"
    "q_data (ch_data chs' ! nat 1) ! nat (consumer_index ?q)
       = Some (playing\<lparr>ts_offset := ts_len playing\<rparr>)"
    by blast
  moreover have "consumer_index ?q = 0" "ts_len playing = 50" "ts_offset playing = 10"
    "nat 1 = 1" "q_data ?q ! 0 = Some playing"
    by (simp_all add: paused_stream_def newSounds_2 playing_def)
  ultimately show ?thesis
    using h(1,6) by auto
qed

text \<open>
  C7. \<open>ws_play_next\<close> on a streaming channel that is not paused. With an empty producer
  slot it stores the new sound there with the start \<open>-1\<close> (as soon as possible) and
  offset 0, advances the producer index modulo the capacity, and returns
  \<open>done_at + len * samplelen\<close> minus the offset \<open>pa_now - now\<close> between the stream clock
  and the caller's clock. With an occupied producer slot it returns \<open>-1\<close> and the
  state is the one it was given.
\<close>

theorem ws_play_next_unpaused:
  assumes chs: "channels state = Some chs"
    and c: "c = ch_len chs div 2 + channel" "0 \<le> c" "c < ch_len chs"
    and sounds: "sounds = ch_data chs ! nat c"
    and unpaused: "paused sounds = 0"
  shows "(q_data sounds ! nat (producer_index sounds) = None \<longrightarrow>
            ws_play_next now channel toplay pa_now state =
              Inr ((done_at sounds + real_of_int (snd_len toplay) * samplelen chs - pa_now) + now,
                   put_channel state chs c
                     (sounds\<lparr>q_data := (q_data sounds)[nat (producer_index sounds) :=
                                Some \<lparr>ts_buffer = snd_buffer toplay, ts_start = - 1,
                                      ts_offset = 0, ts_len = snd_len toplay\<rparr>],
                             producer_index := (if producer_index sounds + 1 = q_len sounds then 0
                                                else producer_index sounds + 1)\<rparr>)) \<and>
            (done_at sounds + real_of_int (snd_len toplay) * samplelen chs - pa_now) + now
              = (done_at sounds + real_of_int (snd_len toplay) * samplelen chs) - (pa_now - now)) \<and>
         (q_data sounds ! nat (producer_index sounds) \<noteq> None \<longrightarrow>
            ws_play_next now channel toplay pa_now state = Inr (- 1, state))"
  using chs c sounds unpaused put_channel_same [OF chs, of c]
  by (simp add: ws_play_next_def force_complete_def Let_def store_sound_def newTimedSound_def q_len_def)

theorem ws_play_next_unpaused_witness:
  "ws_play_next 3 0 chirp 10 fresh_state =
     Inr (- 13 / 2,
          fresh_state\<lparr>channels := Some ((newChannels 4 1 1)\<lparr>ch_data :=
            [newSounds 1,
             (newSounds 2)\<lparr>q_data := [Some (newTimedSound chirp (- 1)), None],
                            producer_index := 1\<rparr>]\<rparr>)\<rparr>) \<and>
   ws_play_next 3 0 chirp 10 (fresh_state\<lparr>channels := Some full_stream\<rparr>) =
     Inr (- 1, fresh_state\<lparr>channels := Some full_stream\<rparr>)"
proof -
  let ?chs = "newChannels 4 1 1"
  have a: "channels fresh_state = Some ?chs" "(1::int) = ch_len ?chs div 2 + 0"
    "(0::int) \<le> 1" "1 < ch_len ?chs" "newSounds 2 = ch_data ?chs ! nat 1"
    "paused (newSounds 2) = 0"
    by (simp_all add: fresh_state_def newChannels_def ch_len_def newSounds_2)
  let ?st = "fresh_state\<lparr>channels := Some full_stream\<rparr>"
  let ?q = "ch_data full_stream ! 1"
  have b: "channels ?st = Some full_stream" "(1::int) = ch_len full_stream div 2 + 0"
    "(0::int) \<le> 1" "1 < ch_len full_stream" "?q = ch_data full_stream ! nat 1"
    "paused ?q = 0"
    by (simp_all add: full_stream_def ch_len_def newSounds_2)
  have "q_data (newSounds 2) ! nat (producer_index (newSounds 2)) = None"
    by (simp add: newSounds_2)
  with ws_play_next_unpaused [OF a, of 3 chirp 10]
  have 1: "ws_play_next 3 0 chirp 10 fresh_state =
     Inr (- 13 / 2,
          fresh_state\<lparr>channels := Some ((newChannels 4 1 1)\<lparr>ch_data :=
            [newSounds 1,
             (newSounds 2)\<lparr>q_data := [Some (newTimedSound chirp (- 1)), None],
                            producer_index := 1\<rparr>]\<rparr>)\<rparr>)"
    by (simp add: put_channel_def fresh_state_def newChannels_def newSounds_1 newSounds_2
        newTimedSound_def chirp_def q_len_def)
  have "q_data ?q ! nat (producer_index ?q) \<noteq> None"
    by (simp add: full_stream_def newSounds_2)
  with ws_play_next_unpaused [OF b, of 3 chirp 10]
  have 2: "ws_play_next 3 0 chirp 10 ?st = Inr (- 1, ?st)"
    by blast
  from 1 2 show ?thesis by blast
qed

section \<open>The one-shot enqueue\<close>

text \<open>
  C3, at the failing input. \<open>ws_play\<close> with the channel 0 chosen by the caller, on a
  queue of capacity 1 whose producer slot holds \<open>tone\<close>: the call returns the channel 0,
  not a sentinel, and the slot now holds \<open>chirp\<close>; the sound that was queued is
  overwritten. (The first conjunct reaches the full queue through \<open>ws_play\<close> itself.)
\<close>

theorem ws_play_overwrites:
  "ws_play 0 1 0 tone 0 fresh_state = Inr (0, one_queued) \<and>
   ws_play 0 2 0 chirp 0 one_queued =
     Inr (0, fresh_state\<lparr>channels := Some ((newChannels 4 1 1)\<lparr>ch_data :=
        [(newSounds 1)\<lparr>q_data := [Some (newTimedSound chirp 2)]\<rparr>, newSounds 2]\<rparr>)\<rparr>)"
  by (simp add: ws_play_def play_on_def put_channel_def store_sound_def fresh_state_def
      one_queued_def newChannels_def newSounds_def ch_len_def q_len_def Let_def)

lemma select_step_none:
  "\<not> accepts d i \<Longrightarrow> select_step d acc i = acc"
  by (auto simp: select_step_def accepts_def Let_def)

lemma select_step_first:
  "accepts d i \<Longrightarrow> select_step d (c, None) i = (int i, Some (done_at (d ! i)))"
  by (auto simp: select_step_def accepts_def Let_def)

lemma select_step_better:
  "accepts d i \<Longrightarrow> select_step d (c, Some m) i =
     (if m > done_at (d ! i) then (int i, Some (done_at (d ! i))) else (c, Some m))"
  by (auto simp: select_step_def accepts_def Let_def)

lemma select_fold:
  "channel < 0 \<Longrightarrow>
   (if \<exists>i<n. accepts d i then best_of d n (foldl (select_step d) (channel, None) [0..<n])
    else foldl (select_step d) (channel, None) [0..<n] = (channel, None))"
proof (induction n)
  case 0
  then show ?case by simp
next
  case (Suc n)
  let ?acc = "foldl (select_step d) (channel, None) [0..<n]"
  show ?case
  proof (cases "accepts d n")
    case False
    then have step: "foldl (select_step d) (channel, None) [0..<Suc n] = ?acc"
      by (simp add: select_step_none)
    from False have ex: "(\<exists>i<Suc n. accepts d i) \<longleftrightarrow> (\<exists>i<n. accepts d i)"
      by (auto simp: less_Suc_eq)
    show ?thesis
    proof (cases "\<exists>i<n. accepts d i")
      case True
      with Suc have "best_of d n ?acc" by simp
      with False have "best_of d (Suc n) ?acc"
        by (auto simp: best_of_def less_Suc_eq)
      with True ex step show ?thesis by auto
    next
      case no: False
      with Suc ex step show ?thesis by auto
    qed
  next
    case True
    then have ex: "\<exists>i<Suc n. accepts d i" by auto
    show ?thesis
    proof (cases "\<exists>i<n. accepts d i")
      case False
      with Suc have "?acc = (channel, None)" by simp
      then have "foldl (select_step d) (channel, None) [0..<Suc n] = (int n, Some (done_at (d ! n)))"
        using True by (simp add: select_step_first)
      moreover have "best_of d (Suc n) (int n, Some (done_at (d ! n)))"
        using True False by (auto simp: best_of_def less_Suc_eq)
      ultimately show ?thesis using ex by auto
    next
      case some: True
      with Suc have b: "best_of d n ?acc" by simp
      obtain c m where acc: "?acc = (c, Some m)"
        using b by (cases ?acc) (auto simp: best_of_def)
      have step: "foldl (select_step d) (channel, None) [0..<Suc n] =
                    (if m > done_at (d ! n) then (int n, Some (done_at (d ! n))) else (c, Some m))"
        using True acc by (simp add: select_step_better)
      have "best_of d (Suc n) (if m > done_at (d ! n) then (int n, Some (done_at (d ! n))) else (c, Some m))"
        using b True unfolding acc best_of_def
        by (auto simp: less_Suc_eq)
      with step ex show ?thesis by auto
    qed
  qed
qed

text \<open>
  C5. \<open>ws_play\<close> with no channel chosen (\<open>channel < 0\<close>) scans the first half of the
  channels, the one-shot channels. When none of them is both unpaused and free at its
  producer slot, it returns \<open>-1\<close> and the state differs only in \<open>weber_error\<close>, set to
  \<open>NO_CHANNELS\<close>. Otherwise it stores the sound on a channel \<open>c\<close> of that half that
  is unpaused and free, whose \<open>done_at\<close> is the smallest among those (the first of them
  when several are equal), and returns \<open>c\<close>.
\<close>

theorem ws_play_auto_select:
  assumes chs: "channels state = Some chs"
    and neg: "channel < 0"
    and n: "n = nat (ch_len chs div 2)"
  shows "((\<forall>i<n. \<not> accepts (ch_data chs) i) \<longrightarrow>
            ws_play now playat channel toplay pa_now state
              = Inr (- 1, state\<lparr>weber_error := NO_CHANNELS\<rparr>)) \<and>
         ((\<exists>i<n. accepts (ch_data chs) i) \<longrightarrow>
            (\<exists>c<n. accepts (ch_data chs) c \<and>
               (\<forall>j<n. accepts (ch_data chs) j \<longrightarrow>
                  done_at (ch_data chs ! c) \<le> done_at (ch_data chs ! j)) \<and>
               (\<forall>j<c. accepts (ch_data chs) j \<longrightarrow>
                  done_at (ch_data chs ! c) < done_at (ch_data chs ! j)) \<and>
               ws_play now playat channel toplay pa_now state
                 = Inr (int c,
                        put_channel state chs (int c)
                          (store_sound (ch_data chs ! c)
                             (newTimedSound toplay ((pa_now - now) + playat))))))"
proof (intro conjI impI)
  assume none: "\<forall>i<n. \<not> accepts (ch_data chs) i"
  with select_fold [OF neg, of n "ch_data chs"]
  have "foldl (select_step (ch_data chs)) (channel, None) [0..<n] = (channel, None)"
    by auto
  then have "select_channel chs channel = channel"
    by (simp add: select_channel_def n [symmetric])
  then show "ws_play now playat channel toplay pa_now state
               = Inr (- 1, state\<lparr>weber_error := NO_CHANNELS\<rparr>)"
    using chs neg by (simp add: ws_play_def Let_def)
next
  assume some: "\<exists>i<n. accepts (ch_data chs) i"
  let ?acc = "foldl (select_step (ch_data chs)) (channel, None) [0..<n]"
  from select_fold [OF neg, of n "ch_data chs"] some
  have b: "best_of (ch_data chs) n ?acc" by auto
  define c where "c = nat (fst ?acc)"
  have sel: "select_channel chs channel = int c"
    using b by (simp add: select_channel_def n [symmetric] c_def best_of_def)
  have cn: "c < n" using b by (simp add: c_def best_of_def)
  then have "int c < ch_len chs" using n by linarith
  then have "ws_play now playat channel toplay pa_now state
               = Inr (int c, put_channel state chs (int c)
                        (store_sound (ch_data chs ! c) (newTimedSound toplay ((pa_now - now) + playat))))"
    using chs neg sel by (simp add: ws_play_def Let_def play_on_def)
  moreover have "accepts (ch_data chs) c"
    "\<forall>j<n. accepts (ch_data chs) j \<longrightarrow> done_at (ch_data chs ! c) \<le> done_at (ch_data chs ! j)"
    "\<forall>j<c. accepts (ch_data chs) j \<longrightarrow> done_at (ch_data chs ! c) < done_at (ch_data chs ! j)"
    using b by (simp_all add: c_def best_of_def)
  ultimately show "\<exists>c<n. accepts (ch_data chs) c \<and>
               (\<forall>j<n. accepts (ch_data chs) j \<longrightarrow>
                  done_at (ch_data chs ! c) \<le> done_at (ch_data chs ! j)) \<and>
               (\<forall>j<c. accepts (ch_data chs) j \<longrightarrow>
                  done_at (ch_data chs ! c) < done_at (ch_data chs ! j)) \<and>
               ws_play now playat channel toplay pa_now state
                 = Inr (int c,
                        put_channel state chs (int c)
                          (store_sound (ch_data chs ! c)
                             (newTimedSound toplay ((pa_now - now) + playat))))"
    using cn by blast
qed

theorem ws_play_auto_select_witness:
  "\<not> accepts (ch_data busy_oneshots) 0 \<and> \<not> accepts (ch_data busy_oneshots) 1 \<and>
   ws_play 0 1 (- 1) tone 0 (fresh_state\<lparr>channels := Some busy_oneshots\<rparr>)
     = Inr (- 1, fresh_state\<lparr>channels := Some busy_oneshots, weber_error := - 2\<rparr>) \<and>
   accepts (ch_data idle_oneshots) 0 \<and> accepts (ch_data idle_oneshots) 1 \<and>
   (\<exists>c<2. done_at (ch_data idle_oneshots ! c) \<le> done_at (ch_data idle_oneshots ! 0) \<and>
          done_at (ch_data idle_oneshots ! c) \<le> done_at (ch_data idle_oneshots ! 1) \<and>
          ws_play 0 1 (- 1) tone 0 (fresh_state\<lparr>channels := Some idle_oneshots\<rparr>)
            = Inr (int c,
                   put_channel (fresh_state\<lparr>channels := Some idle_oneshots\<rparr>) idle_oneshots (int c)
                     (store_sound (ch_data idle_oneshots ! c) (newTimedSound tone 1))))"
proof -
  let ?b = "fresh_state\<lparr>channels := Some busy_oneshots\<rparr>"
  let ?i = "fresh_state\<lparr>channels := Some idle_oneshots\<rparr>"
  have nb: "(2::nat) = nat (ch_len busy_oneshots div 2)"
    by (simp add: busy_oneshots_def ch_len_def)
  have ni: "(2::nat) = nat (ch_len idle_oneshots div 2)"
    by (simp add: idle_oneshots_def ch_len_def)
  have busy: "\<not> accepts (ch_data busy_oneshots) 0" "\<not> accepts (ch_data busy_oneshots) 1"
    by (simp_all add: accepts_def busy_oneshots_def newSounds_def)
  then have none: "\<forall>i<2. \<not> accepts (ch_data busy_oneshots) i"
    by (auto simp: less_Suc_eq numeral_2_eq_2)
  have idle: "accepts (ch_data idle_oneshots) 0" "accepts (ch_data idle_oneshots) 1"
    by (simp_all add: accepts_def idle_oneshots_def newSounds_def)
  then have some: "\<exists>i<2. accepts (ch_data idle_oneshots) i"
    by (intro exI [of _ 0]) simp
  have 1: "ws_play 0 1 (- 1) tone 0 ?b = Inr (- 1, ?b\<lparr>weber_error := NO_CHANNELS\<rparr>)"
    using ws_play_auto_select [of ?b busy_oneshots "- 1" 2 0 1 tone 0] nb none by simp
  have "\<exists>c<2. accepts (ch_data idle_oneshots) c \<and>
               (\<forall>j<2. accepts (ch_data idle_oneshots) j \<longrightarrow>
                  done_at (ch_data idle_oneshots ! c) \<le> done_at (ch_data idle_oneshots ! j)) \<and>
               (\<forall>j<c. accepts (ch_data idle_oneshots) j \<longrightarrow>
                  done_at (ch_data idle_oneshots ! c) < done_at (ch_data idle_oneshots ! j)) \<and>
               ws_play 0 1 (- 1) tone 0 ?i
                 = Inr (int c, put_channel ?i idle_oneshots (int c)
                          (store_sound (ch_data idle_oneshots ! c) (newTimedSound tone ((0 - 0) + 1))))"
    using ws_play_auto_select [of ?i idle_oneshots "- 1" 2 0 1 tone 0] ni some by simp
  then obtain c where c: "c < 2"
    "\<forall>j<2. accepts (ch_data idle_oneshots) j \<longrightarrow>
                  done_at (ch_data idle_oneshots ! c) \<le> done_at (ch_data idle_oneshots ! j)"
    "ws_play 0 1 (- 1) tone 0 ?i
                 = Inr (int c, put_channel ?i idle_oneshots (int c)
                          (store_sound (ch_data idle_oneshots ! c) (newTimedSound tone 1)))"
    by auto
  from c(2) idle have "done_at (ch_data idle_oneshots ! c) \<le> done_at (ch_data idle_oneshots ! 0)"
    "done_at (ch_data idle_oneshots ! c) \<le> done_at (ch_data idle_oneshots ! 1)"
    by simp_all
  with c(1,3) have 2: "\<exists>c<2. done_at (ch_data idle_oneshots ! c) \<le> done_at (ch_data idle_oneshots ! 0) \<and>
          done_at (ch_data idle_oneshots ! c) \<le> done_at (ch_data idle_oneshots ! 1) \<and>
          ws_play 0 1 (- 1) tone 0 ?i
            = Inr (int c, put_channel ?i idle_oneshots (int c)
                     (store_sound (ch_data idle_oneshots ! c) (newTimedSound tone 1)))"
    by blast
  from 1 busy idle 2 show ?thesis
    by (simp add: NO_CHANNELS_def)
qed

section \<open>Pausing\<close>

text \<open>
  C8, at the failing input. \<open>ws_pause\<close> with \<open>channel = -1\<close> (all channels) and
  \<open>isstream = 0\<close>: after the loop over all channels, line 375 writes
  \<open>data[-1].paused\<close>, outside of the channel array.
\<close>

theorem ws_pause_all_out_of_bounds:
  "ws_pause fresh_state (- 1) 0 1 = Inl OutOfBounds"
  by (simp add: ws_pause_def set_paused_def fresh_state_def Let_def)

text \<open>
  The same for every negative channel with \<open>isstream = 0\<close>; and when \<open>ws_pause\<close>
  returns, the channels differ from the ones before in their paused flags only.
\<close>

lemma ws_pause_negative_oneshot:
  "channels state = Some chs \<Longrightarrow> channel < 0 \<Longrightarrow>
   ws_pause state channel 0 pause = Inl OutOfBounds"
  by (simp add: ws_pause_def set_paused_def Let_def)

lemma ws_pause_frame:
  assumes "ws_pause state channel isstream pause = Inr state'"
  shows "\<exists>chs d. channels state = Some chs \<and> state' = state\<lparr>channels := Some (chs\<lparr>ch_data := d\<rparr>)\<rparr> \<and>
           length d = length (ch_data chs) \<and>
           (\<forall>i<length d. d ! i = (ch_data chs ! i)\<lparr>paused := paused (d ! i)\<rparr>)"
proof (cases "channels state")
  case None
  with assms show ?thesis by (simp add: ws_pause_def)
next
  case (Some chs)
  define d1 where "d1 = (if channel < 0 then map (\<lambda>s. s\<lparr>paused := pause\<rparr>) (ch_data chs) else ch_data chs)"
  define i where "i = (if isstream \<noteq> 0 then ch_len chs div 2 + channel else channel)"
  from assms Some obtain d2 where d2: "set_paused d1 i pause = Inr d2"
    and st: "state' = state\<lparr>channels := Some (chs\<lparr>ch_data := d2\<rparr>)\<rparr>"
    by (auto simp: ws_pause_def Let_def d1_def i_def split: sum.splits)
  have l1: "length d1 = length (ch_data chs)" by (simp add: d1_def)
  have e1: "\<forall>k<length d1. d1 ! k = (ch_data chs ! k)\<lparr>paused := paused (d1 ! k)\<rparr>"
    by (simp add: d1_def)
  from d2 have d2eq: "d2 = d1[nat i := (d1 ! nat i)\<lparr>paused := pause\<rparr>]"
    by (auto simp: set_paused_def split: if_splits)
  have "\<forall>k<length d2. d2 ! k = (ch_data chs ! k)\<lparr>paused := paused (d2 ! k)\<rparr>"
  proof (intro allI impI)
    fix k assume k: "k < length d2"
    then have k1: "k < length d1" by (simp add: d2eq)
    with e1 have e: "d1 ! k = (ch_data chs ! k)\<lparr>paused := paused (d1 ! k)\<rparr>" by simp
    show "d2 ! k = (ch_data chs ! k)\<lparr>paused := paused (d2 ! k)\<rparr>"
    proof (cases "k = nat i")
      case True
      with k1 have "d2 ! k = (d1 ! k)\<lparr>paused := pause\<rparr>" by (simp add: d2eq)
      then show ?thesis by (subst (asm) e) simp
    next
      case False
      then have "d2 ! k = d1 ! k" by (simp add: d2eq)
      with e show ?thesis by simp
    qed
  qed
  with Some st l1 show ?thesis by (auto simp: d2eq)
qed

section \<open>The callback\<close>

text \<open>
  The loop of lines 178--181 in closed form, and the loop of lines 130--133.
\<close>

lemma mix_loop_fst:
  "fst (mix_loop n pad sound off i out) = max i (min n (pad + (ts_len sound - off)))"
proof (induction n pad sound off i out rule: mix_loop.induct)
  case (1 n pad sound off i out)
  show ?case
  proof (cases "i < n \<and> i - pad < ts_len sound - off")
    case True
    then have "mix_loop n pad sound off i out
                 = mix_loop n pad sound off (i + 1) (mix_frame pad sound off i out)"
      by (subst mix_loop.simps) simp
    with "1.IH" [OF True] True show ?thesis
      by (simp add: max_def min_def)
  next
    case False
    have "mix_loop n pad sound off i out = (i, out)"
      by (subst mix_loop.simps) (simp add: False)
    with False show ?thesis
      by (auto simp: max_def min_def)
  qed
qed

lemma mix_frame_mixed: "mix_frame pad sound off i out = mixed out sound pad off i (i + 1)"
proof
  fix k :: int
  consider "k = 2 * i" | "k = 2 * i + 1" | "k < 2 * i" | "2 * i + 1 < k"
    by linarith
  then show "mix_frame pad sound off i out k = mixed out sound pad off i (i + 1) k"
  proof cases
    case 1
    then show ?thesis by (simp add: mix_frame_def mixed_def Let_def)
  next
    case 2
    then show ?thesis by (simp add: mix_frame_def mixed_def Let_def)
  next
    case 3
    then show ?thesis by (simp add: mix_frame_def mixed_def Let_def)
  next
    case 4
    then show ?thesis by (simp add: mix_frame_def mixed_def Let_def)
  qed
qed

lemma mixed_join:
  "a \<le> b \<Longrightarrow> b \<le> c \<Longrightarrow>
   mixed (mixed out sound pad off a b) sound pad off b c = mixed out sound pad off a c"
  by (auto simp: mixed_def fun_eq_iff)

lemma mixed_empty: "hi \<le> lo \<Longrightarrow> mixed out sound pad off lo hi = out"
  by (auto simp: mixed_def fun_eq_iff)

lemma mix_loop_snd:
  "snd (mix_loop n pad sound off i out)
     = mixed out sound pad off i (max i (min n (pad + (ts_len sound - off))))"
proof (induction n pad sound off i out rule: mix_loop.induct)
  case (1 n pad sound off i out)
  let ?m = "min n (pad + (ts_len sound - off))"
  show ?case
  proof (cases "i < n \<and> i - pad < ts_len sound - off")
    case True
    then have m: "i + 1 \<le> ?m" by simp
    from True have "mix_loop n pad sound off i out
                 = mix_loop n pad sound off (i + 1) (mix_frame pad sound off i out)"
      by (subst mix_loop.simps) simp
    with "1.IH" [OF True] have "snd (mix_loop n pad sound off i out)
        = mixed (mixed out sound pad off i (i + 1)) sound pad off (i + 1) (max (i + 1) ?m)"
      by (simp add: mix_frame_mixed)
    also have "\<dots> = mixed out sound pad off i (max (i + 1) ?m)"
      by (rule mixed_join) simp_all
    finally show ?thesis
      using m by (simp add: max_def)
  next
    case False
    have "mix_loop n pad sound off i out = (i, out)"
      by (subst mix_loop.simps) (simp add: False)
    moreover from False have "max i ?m = i" by (auto simp: max_def min_def)
    ultimately show ?thesis
      by (simp add: mixed_empty)
  qed
qed

lemma zero_output_eq:
  "zero_output n out = (\<lambda>k. if 0 \<le> k \<and> k < 2 * int n then 0 else out k)"
  by (induction n) (auto simp: fun_eq_iff)

lemma mixed_zero_output:
  "mixed (zero_output n out) sound 0 off 0 m =
     (\<lambda>k. if 0 \<le> k \<and> k < 2 * m
          then (if even k then ts_buffer sound (k div 2 + off)
                else ts_buffer sound (k div 2 + ts_len sound + off))
               + (if k < 2 * int n then 0 else out k)
          else if 0 \<le> k \<and> k < 2 * int n then 0 else out k)"
  by (auto simp: mixed_def zero_output_eq fun_eq_iff)

lemma due_padding:
  fixes sr sl bs start :: real
  assumes "0 < sr" "sl = 1 / sr" "bs + sl * real n > start"
  shows "\<lfloor>(start - bs) * sr\<rfloor> < int n"
proof -
  from assms have "start - bs < real n / sr"
    by simp
  with assms(1) have "(start - bs) * sr < real n"
    by (simp add: pos_less_divide_eq)
  then show ?thesis
    by (simp add: floor_less_iff)
qed

lemma start_sound_props:
  assumes pad: "0 \<le> zero_padding loc" "zero_padding loc \<le> int (cb_len env)"
    and cur: "0 \<le> outi loc" "outi loc < int (cb_len env)"
    and env: "0 < cb_samplerate env" "cb_samplelen env = 1 / cb_samplerate env"
  shows "q_data (fst (start_sound env sound (q, loc))) = q_data q"
    and "consumer_index (fst (start_sound env sound (q, loc))) = consumer_index q"
    and "producer_index (fst (start_sound env sound (q, loc))) = producer_index q"
    and "paused (fst (start_sound env sound (q, loc))) = paused q"
    and "0 \<le> zero_padding (snd (start_sound env sound (q, loc)))"
    and "zero_padding (snd (start_sound env sound (q, loc))) \<le> int (cb_len env)"
    and "0 \<le> outi (snd (start_sound env sound (q, loc)))"
    and "output_buffer (snd (start_sound env sound (q, loc))) = output_buffer loc"
    and "ts_offset sound = 0 \<Longrightarrow> should_start (snd (start_sound env sound (q, loc)))
           \<or> int (cb_len env) \<le> outi (snd (start_sound env sound (q, loc)))"
  using pad cur due_padding [OF env, where bs = "buffer_start env" and n = "cb_len env" and start = "ts_start sound"]
  by (auto simp: start_sound_def Let_def simp del: zero_le_floor)

lemma sum_samples_props:
  assumes wf: "wf_sound (cb_len env) sound"
    and pad: "0 \<le> zero_padding loc" "zero_padding loc \<le> int (cb_len env)"
  shows "zero_padding (snd (sum_samples env sound loc)) = zero_padding loc"
    and "fst (sum_samples env sound loc)
           = sound\<lparr>ts_offset := ts_offset (fst (sum_samples env sound loc))\<rparr>
         \<and> ts_offset sound \<le> ts_offset (fst (sum_samples env sound loc))"
    and "0 \<le> outi loc \<Longrightarrow> 0 \<le> outi (snd (sum_samples env sound loc))"
    and "ts_len sound \<le> ts_offset (fst (sum_samples env sound loc))
         \<or> int (cb_len env) \<le> outi (snd (sum_samples env sound loc))
         \<or> (ts_offset sound = 0 \<and> \<not> should_start loc \<and> sum_samples env sound loc = (sound, loc))"
  using wf pad
  by (auto simp: sum_samples_def Let_def mix_loop_fst wf_sound_def max_def min_def c_int_id)

lemma remove_done_props:
  "paused (remove_done sound q) = paused q"
  "producer_index (remove_done sound q) = producer_index q"
  "done_at (remove_done sound q) = done_at q"
  "length (q_data (remove_done sound q)) = length (q_data q)"
  "ts_len sound \<le> ts_offset sound \<Longrightarrow>
     q_data (remove_done sound q) = (q_data q)[nat (consumer_index q) := None]"
  "\<not> ts_len sound \<le> ts_offset sound \<Longrightarrow>
     q_data (remove_done sound q) = (q_data q)[nat (consumer_index q) := Some sound] \<and>
     consumer_index (remove_done sound q) = consumer_index q"
  "0 \<le> consumer_index q \<Longrightarrow> consumer_index q < q_len q \<Longrightarrow>
     0 \<le> consumer_index (remove_done sound q) \<and>
     consumer_index (remove_done sound q) < q_len (remove_done sound q)"
  by (auto simp: remove_done_def Let_def q_len_def)

text \<open>
  What one round of the loop does to the ring: the slot at the head is cleared, or it
  keeps its sound with a larger offset that is still below the length, and then the
  loop is at the end of the buffer.
\<close>

lemma consume_step_cases:
  assumes idx: "0 \<le> consumer_index q" "consumer_index q < q_len q"
    and wf: "wf_sound (cb_len env) sound"
    and pad: "0 \<le> zero_padding loc" "zero_padding loc \<le> int (cb_len env)"
    and cur: "0 \<le> outi loc" "outi loc < int (cb_len env)"
    and env: "0 < cb_samplerate env" "cb_samplelen env = 1 / cb_samplerate env"
  shows "\<exists>q' loc'. consume_step env sound (q, loc) = (q', loc') \<and>
           0 \<le> zero_padding loc' \<and> zero_padding loc' \<le> int (cb_len env) \<and> 0 \<le> outi loc' \<and>
           paused q' = paused q \<and> producer_index q' = producer_index q \<and>
           0 \<le> consumer_index q' \<and> consumer_index q' < q_len q' \<and>
           (q_data q' = (q_data q)[nat (consumer_index q) := None] \<or>
            (\<exists>off'. q_data q' = (q_data q)[nat (consumer_index q) := Some (sound\<lparr>ts_offset := off'\<rparr>)] \<and>
                    ts_offset sound \<le> off' \<and> off' < ts_len sound \<and>
                    int (cb_len env) \<le> outi loc'))"
proof -
  define st1 where "st1 = start_sound env sound (q, loc)"
  define r where "r = sum_samples env sound (snd st1)"
  have step: "consume_step env sound (q, loc) = (remove_done (fst r) (fst st1), snd r)"
    by (simp add: consume_step_def Let_def st1_def r_def)
  note s = start_sound_props [OF pad cur env, of sound q, folded st1_def]
  note m = sum_samples_props [OF wf s(5,6), folded r_def]
  define off' where "off' = ts_offset (fst r)"
  from m(2) have off': "fst r = sound\<lparr>ts_offset := off'\<rparr>" "ts_offset sound \<le> off'"
    by (simp_all add: off'_def)
  have idx1: "0 \<le> consumer_index (fst st1)" "consumer_index (fst st1) < q_len (fst st1)"
    using idx s(1,2) by (simp_all add: q_len_def)
  note d = remove_done_props [where sound = "fst r" and q = "fst st1"]
  have stop: "ts_len sound \<le> off' \<or> int (cb_len env) \<le> outi (snd r)"
  proof -
    from m(4) consider "ts_len sound \<le> ts_offset (fst r)" | "int (cb_len env) \<le> outi (snd r)"
      | "ts_offset sound = 0" "\<not> should_start (snd st1)" "r = (sound, snd st1)"
      by blast
    then show ?thesis
    proof cases
      case 1 then show ?thesis using off' by simp
    next
      case 2 then show ?thesis by simp
    next
      case 3
      with s(9) have "int (cb_len env) \<le> outi (snd st1)" by blast
      with 3 show ?thesis by simp
    qed
  qed
  show ?thesis
  proof (cases "ts_len (fst r) \<le> ts_offset (fst r)")
    case True
    with d(5) have "q_data (remove_done (fst r) (fst st1)) = (q_data q)[nat (consumer_index q) := None]"
      using s(1,2) by simp
    then show ?thesis
      using step d(1,2) d(7) [OF idx1] s(3,4) m(1) s(5,6) m(3) [OF s(7)] by auto
  next
    case False
    with off' have lt: "off' < ts_len sound" by simp
    with stop have "int (cb_len env) \<le> outi (snd r)" by simp
    moreover from False d(6) have "q_data (remove_done (fst r) (fst st1))
        = (q_data q)[nat (consumer_index q) := Some (sound\<lparr>ts_offset := off'\<rparr>)]"
      using s(1,2) off' by simp
    ultimately show ?thesis
      using step d(1,2) d(7) [OF idx1] s(3,4) m(1) s(5,6) m(3) [OF s(7)] off' lt by auto
  qed
qed

lemma occupied_clear:
  "i < length xs \<Longrightarrow> xs ! i = Some s \<Longrightarrow> occupied (xs[i := None]) < occupied xs"
proof (induction xs arbitrary: i)
  case Nil
  then show ?case by simp
next
  case (Cons x xs)
  then show ?case
    by (cases i) (auto simp: occupied_def)
qed

lemma occupied_keep:
  "i < length xs \<Longrightarrow> xs ! i = Some s \<Longrightarrow> occupied (xs[i := Some s']) = occupied xs"
proof (induction xs arbitrary: i)
  case Nil
  then show ?case by simp
next
  case (Cons x xs)
  then show ?case
    by (cases i) (auto simp: occupied_def)
qed

text \<open>
  The loop returns when every round keeps an invariant and lowers a measure.
\<close>

lemma consume_rule:
  assumes inv: "I st"
    and step: "\<And>st sound. I st \<Longrightarrow>
                 q_data (fst st) ! nat (consumer_index (fst st)) = Some sound \<Longrightarrow>
                 outi (snd st) < int (cb_len env) \<Longrightarrow>
                 I (consume_step env sound st) \<and> m (consume_step env sound st) < (m st :: nat)"
  shows "\<exists>st'. consume env st = Some st' \<and> I st'"
  using inv
proof (induction "m st" arbitrary: st rule: less_induct)
  case less
  show ?case
  proof (cases "q_data (fst st) ! nat (consumer_index (fst st))")
    case None
    then have "consume env st = Some st"
      by (subst consume.simps) simp
    with less.prems show ?thesis by simp
  next
    case (Some sound)
    show ?thesis
    proof (cases "outi (snd st) < int (cb_len env)")
      case True
      from step [OF less.prems Some True]
      have "I (consume_step env sound st)" "m (consume_step env sound st) < m st"
        by simp_all
      from less.hyps [OF this(2) this(1)] obtain st' where
        "consume env (consume_step env sound st) = Some st'" "I st'"
        by blast
      moreover have "consume env st = consume env (consume_step env sound st)"
        by (subst consume.simps) (simp add: Some True)
      ultimately show ?thesis by simp
    next
      case False
      have "consume env st = Some st"
        by (subst consume.simps) (simp add: Some False)
      with less.prems show ?thesis by simp
    qed
  qed
qed

lemma advanced_refl: "wf_slot n x \<Longrightarrow> advanced x x"
  by (cases x) (simp_all add: advanced_def wf_slot_def wf_sound_def)

lemma advanced_None: "advanced x None"
  by (simp add: advanced_def)

lemma advanced_step:
  "advanced x (Some s) \<Longrightarrow> ts_offset s \<le> off' \<Longrightarrow> off' < ts_len s \<Longrightarrow>
   advanced x (Some (s\<lparr>ts_offset := off'\<rparr>))"
  by (cases x) (auto simp: advanced_def)

lemma list_all2_advanced_update:
  assumes "list_all2 advanced xs ys" "advanced (xs ! i) y"
  shows "list_all2 advanced xs (ys[i := y])"
proof -
  from assms have "list_all2 advanced (xs[i := xs ! i]) (ys[i := y])"
    by (rule list_all2_update_cong)
  then show ?thesis by simp
qed

lemma list_all_update:
  assumes "list_all P xs" "P y"
  shows "list_all P (xs[i := y])"
  using assms set_update_subset_insert [of xs i y]
  by (auto simp: list_all_iff)

lemma consume_advances:
  assumes wf: "wf_sounds (cb_len env) q0"
    and env: "0 < cb_samplerate env" "cb_samplelen env = 1 / cb_samplerate env"
    and loc: "0 \<le> zero_padding loc" "zero_padding loc \<le> int (cb_len env)" "0 \<le> outi loc"
  shows "\<exists>q' loc'. consume env (q0, loc) = Some (q', loc') \<and> wf_sounds (cb_len env) q' \<and>
           paused q' = paused q0 \<and> producer_index q' = producer_index q0 \<and>
           list_all2 advanced (q_data q0) (q_data q')"
proof -
  define I where "I = (\<lambda>st :: Sounds \<times> cb_locals.
      wf_sounds (cb_len env) (fst st) \<and> paused (fst st) = paused q0 \<and>
      producer_index (fst st) = producer_index q0 \<and>
      list_all2 advanced (q_data q0) (q_data (fst st)) \<and>
      0 \<le> zero_padding (snd st) \<and> zero_padding (snd st) \<le> int (cb_len env) \<and>
      0 \<le> outi (snd st))"
  define m where "m = (\<lambda>st :: Sounds \<times> cb_locals.
      2 * occupied (q_data (fst st)) + (if outi (snd st) < int (cb_len env) then 1 else 0 :: nat))"
  have init: "I (q0, loc)"
    using wf loc
    by (auto simp: I_def wf_sounds_def list_all2_conv_all_nth list_all_length advanced_refl)
  have step: "I (consume_step env sound st) \<and> m (consume_step env sound st) < m st"
    if inv: "I st" and head: "q_data (fst st) ! nat (consumer_index (fst st)) = Some sound"
      and cur: "outi (snd st) < int (cb_len env)" for st sound
  proof -
    obtain q l where st: "st = (q, l)" by (cases st)
    from inv st have idx: "0 \<le> consumer_index q" "consumer_index q < q_len q"
      and slots: "list_all (wf_slot (cb_len env)) (q_data q)"
      and adv: "list_all2 advanced (q_data q0) (q_data q)"
      and pad: "0 \<le> zero_padding l" "zero_padding l \<le> int (cb_len env)"
      and out: "0 \<le> outi l"
      and same: "paused q = paused q0" "producer_index q = producer_index q0"
      by (simp_all add: I_def wf_sounds_def)
    let ?i = "nat (consumer_index q)"
    have i: "?i < length (q_data q)"
      using idx by (simp add: q_len_def)
    have hd: "q_data q ! ?i = Some sound"
      using head st by simp
    with slots i have wfs: "wf_sound (cb_len env) sound"
      by (auto simp: list_all_length wf_slot_def split: option.splits)
    have cur': "outi l < int (cb_len env)"
      using cur st by simp
    from consume_step_cases [OF idx wfs pad out cur' env]
    obtain q' l' where r: "consume_step env sound (q, l) = (q', l')"
      and pad': "0 \<le> zero_padding l'" "zero_padding l' \<le> int (cb_len env)" "0 \<le> outi l'"
      and same': "paused q' = paused q" "producer_index q' = producer_index q"
      and idx': "0 \<le> consumer_index q'" "consumer_index q' < q_len q'"
      and data: "q_data q' = (q_data q)[?i := None] \<or>
            (\<exists>off'. q_data q' = (q_data q)[?i := Some (sound\<lparr>ts_offset := off'\<rparr>)] \<and>
                    ts_offset sound \<le> off' \<and> off' < ts_len sound \<and>
                    int (cb_len env) \<le> outi l')"
      by blast
    have adv_hd: "advanced (q_data q0 ! ?i) (Some sound)"
      using adv i hd by (auto simp: list_all2_conv_all_nth)
    from data show ?thesis
    proof
      assume gone: "q_data q' = (q_data q)[?i := None]"
      have "list_all (wf_slot (cb_len env)) (q_data q')"
        unfolding gone using slots by (rule list_all_update) (simp add: wf_slot_def)
      moreover have "list_all2 advanced (q_data q0) (q_data q')"
        unfolding gone using adv advanced_None by (rule list_all2_advanced_update)
      moreover have "occupied (q_data q') < occupied (q_data q)"
        unfolding gone using i hd by (rule occupied_clear)
      ultimately show ?thesis
        using r st pad' same' same idx' by (auto simp: I_def m_def wf_sounds_def)
    next
      assume "\<exists>off'. q_data q' = (q_data q)[?i := Some (sound\<lparr>ts_offset := off'\<rparr>)] \<and>
                    ts_offset sound \<le> off' \<and> off' < ts_len sound \<and>
                    int (cb_len env) \<le> outi l'"
      then obtain off' where kept: "q_data q' = (q_data q)[?i := Some (sound\<lparr>ts_offset := off'\<rparr>)]"
        and off': "ts_offset sound \<le> off'" "off' < ts_len sound"
        and stop: "int (cb_len env) \<le> outi l'"
        by blast
      have "wf_slot (cb_len env) (Some (sound\<lparr>ts_offset := off'\<rparr>))"
        using wfs off' by (simp add: wf_slot_def wf_sound_def)
      with slots have "list_all (wf_slot (cb_len env)) (q_data q')"
        unfolding kept by (rule list_all_update)
      moreover have "list_all2 advanced (q_data q0) (q_data q')"
        unfolding kept using adv advanced_step [OF adv_hd off'] by (rule list_all2_advanced_update)
      moreover have "occupied (q_data q') = occupied (q_data q)"
        unfolding kept using i hd by (rule occupied_keep)
      ultimately show ?thesis
        using r st pad' same' same idx' stop cur' by (auto simp: I_def m_def wf_sounds_def)
    qed
  qed
  from consume_rule [of I "(q0, loc)" env m, OF init step]
  show ?thesis
    by (auto simp: I_def)
qed

lemma consume_clears_done:
  assumes wf: "wf_sounds (cb_len env) q"
    and env: "0 < cb_samplerate env" "cb_samplelen env = 1 / cb_samplerate env"
    and loc: "zero_padding loc = 0" "outi loc = 0"
    and n: "0 < cb_len env"
    and head: "q_data q ! nat (consumer_index q) = Some sound"
    and over: "ts_len sound \<le> ts_offset sound"
  shows "\<exists>q' loc'. consume env (q, loc) = Some (q', loc') \<and>
           q_data q' ! nat (consumer_index q) = None"
proof -
  let ?i = "nat (consumer_index q)"
  from wf have idx: "0 \<le> consumer_index q" "consumer_index q < q_len q"
    and slots: "list_all (wf_slot (cb_len env)) (q_data q)"
    by (simp_all add: wf_sounds_def)
  have i: "?i < length (q_data q)"
    using idx by (simp add: q_len_def)
  with slots head have wfs: "wf_sound (cb_len env) sound"
    by (auto simp: list_all_length wf_slot_def split: option.splits)
  have pad: "0 \<le> zero_padding loc" "zero_padding loc \<le> int (cb_len env)"
    and cur: "0 \<le> outi loc" "outi loc < int (cb_len env)"
    using loc n by simp_all
  from consume_step_cases [OF idx wfs pad cur env] over
  obtain q1 l1 where r: "consume_step env sound (q, loc) = (q1, l1)"
    and pad1: "0 \<le> zero_padding l1" "zero_padding l1 \<le> int (cb_len env)" "0 \<le> outi l1"
    and idx1: "0 \<le> consumer_index q1" "consumer_index q1 < q_len q1"
    and data: "q_data q1 = (q_data q)[?i := None]"
    by force
  have "list_all (wf_slot (cb_len env)) (q_data q1)"
    unfolding data using slots by (rule list_all_update) (simp add: wf_slot_def)
  with idx1 have wf1: "wf_sounds (cb_len env) q1"
    by (simp add: wf_sounds_def)
  from consume_advances [OF wf1 env pad1] obtain q' loc' where
    c: "consume env (q1, l1) = Some (q', loc')" "list_all2 advanced (q_data q1) (q_data q')"
    by blast
  have "q_data q1 ! ?i = None"
    using i by (simp add: data)
  moreover have "?i < length (q_data q1)"
    using i by (simp add: data)
  ultimately have "advanced None (q_data q' ! ?i)"
    using c(2) by (auto simp: list_all2_conv_all_nth)
  then have "q_data q' ! ?i = None"
    by (cases "q_data q' ! ?i") (simp_all add: advanced_def)
  moreover have "consume env (q, loc) = consume env (q1, l1)"
    using head cur(2) r by (subst consume.simps) simp
  ultimately show ?thesis
    using c(1) by simp
qed

lemma process_channel_advances:
  assumes wf: "wf_sounds (cb_len env) q"
    and env: "0 < cb_samplerate env" "cb_samplelen env = 1 / cb_samplerate env"
  shows "\<exists>q' loc'. process_channel env q loc = Some (q', loc') \<and> wf_sounds (cb_len env) q' \<and>
           channel_advanced (cb_len env) q q'"
proof (cases "paused q = 0")
  case False
  then have "process_channel env q loc = Some (q, loc)"
    by (simp add: process_channel_def)
  moreover have "list_all2 advanced (q_data q) (q_data q)"
    using wf by (auto simp: wf_sounds_def list_all2_conv_all_nth list_all_length advanced_refl)
  ultimately show ?thesis
    using wf False by (simp add: channel_advanced_def split: option.splits)
next
  case True
  define q1 where "q1 = (if q_data q ! nat (consumer_index q) = None
              then q\<lparr>done_at := buffer_start env + cb_samplelen env * real (cb_len env)\<rparr>
              else q)"
  define l1 where "l1 = loc\<lparr>zero_padding := 0, outi := 0\<rparr>"
  have q1: "wf_sounds (cb_len env) q1" "q_data q1 = q_data q" "paused q1 = paused q"
    "producer_index q1 = producer_index q" "consumer_index q1 = consumer_index q"
    using wf by (simp_all add: q1_def wf_sounds_def q_len_def)
  have l1: "0 \<le> zero_padding l1" "zero_padding l1 \<le> int (cb_len env)" "0 \<le> outi l1"
    "zero_padding l1 = 0" "outi l1 = 0"
    by (simp_all add: l1_def)
  have p: "process_channel env q loc = consume env (q1, l1)"
    using True by (simp add: process_channel_def q1_def l1_def)
  from consume_advances [OF q1(1) env l1(1,2,3)] obtain q' loc' where
    c: "consume env (q1, l1) = Some (q', loc')" "wf_sounds (cb_len env) q'" "paused q' = paused q1"
       "producer_index q' = producer_index q1" "list_all2 advanced (q_data q1) (q_data q')"
    by blast
  have "q_data q' ! nat (consumer_index q) = None"
    if "q_data q ! nat (consumer_index q) = Some s" "0 < cb_len env" "ts_len s \<le> ts_offset s" for s
    using consume_clears_done [OF q1(1) env l1(4,5) that(2), of s] that(1,3) q1(2,5) c(1) by simp
  then show ?thesis
    using p c q1 by (auto simp: channel_advanced_def split: option.splits)
qed

lemma channel_loop_advances:
  assumes env: "0 < cb_samplerate env" "cb_samplelen env = 1 / cb_samplerate env"
  shows "list_all (wf_sounds (cb_len env)) qs \<Longrightarrow>
         \<exists>qs' loc'. channel_loop env qs loc = Some (qs', loc') \<and> list_all (wf_sounds (cb_len env)) qs' \<and>
           list_all2 (channel_advanced (cb_len env)) qs qs'"
proof (induction qs arbitrary: loc)
  case Nil
  then show ?case by simp
next
  case (Cons q qs)
  then have wf: "wf_sounds (cb_len env) q" and rest: "list_all (wf_sounds (cb_len env)) qs" by simp_all
  from process_channel_advances [OF wf env, of loc] obtain q' loc1 where
    p: "process_channel env q loc = Some (q', loc1)" "wf_sounds (cb_len env) q'"
       "channel_advanced (cb_len env) q q'"
    by blast
  from Cons.IH [OF rest, of loc1] obtain qs' loc2 where
    r: "channel_loop env qs loc1 = Some (qs', loc2)" "list_all (wf_sounds (cb_len env)) qs'"
       "list_all2 (channel_advanced (cb_len env)) qs qs'"
    by blast
  from p r show ?case by simp
qed

text \<open>
  On channels in a state the engine keeps, every call of \<open>ws_callback\<close> returns, and
  keeps the state so. Every slot of every ring is then empty or holds the sound it held
  before, with an offset that is not smaller and is at most the sound's length; an
  offset the callback has changed is below the length, since a sound whose offset
  reaches its length is removed from its slot in the same round of the loop (lines
  186--192). A sound that is at its end at the head of a channel that is not paused (as
  \<open>ws_play_next\<close> leaves it) is removed by the next callback of at least one frame. The
  callback never fills a slot.
\<close>

lemma ws_callback_advances:
  assumes wf: "wf_channels n chs"
  shows "\<exists>out' chs'. ws_callback out n time_info chs = Some (0, out', chs') \<and>
           wf_channels n chs' \<and> length (ch_data chs') = length (ch_data chs) \<and>
           (\<forall>c<length (ch_data chs).
              length (q_data (ch_data chs' ! c)) = length (q_data (ch_data chs ! c)) \<and>
              (\<forall>i<length (q_data (ch_data chs ! c)).
                 advanced (q_data (ch_data chs ! c) ! i) (q_data (ch_data chs' ! c) ! i)) \<and>
              (\<forall>s. paused (ch_data chs ! c) = 0 \<and> 0 < n \<and>
                   q_data (ch_data chs ! c) ! nat (consumer_index (ch_data chs ! c)) = Some s \<and>
                   ts_len s \<le> ts_offset s \<longrightarrow>
                   q_data (ch_data chs' ! c) ! nat (consumer_index (ch_data chs ! c)) = None))"
proof -
  define env where "env = \<lparr>cb_len = n, buffer_start = outputBufferDacTime time_info,
                 cb_samplerate = samplerate chs, cb_samplelen = samplelen chs\<rparr>"
  define chs1 where "chs1 = chs\<lparr>last_latency := outputBufferDacTime time_info - currentTime time_info,
                     last_buffer_size := n\<rparr>"
  define loc0 where "loc0 = \<lparr>output_buffer = zero_output n out, outi = int n, should_start = False,
                  zero_padding = 0, cb_error = playback_error chs1\<rparr>"
  have env: "0 < cb_samplerate env" "cb_samplelen env = 1 / cb_samplerate env"
    using wf by (simp_all add: env_def wf_channels_def)
  have n: "cb_len env = n"
    by (simp add: env_def)
  have "list_all (wf_sounds (cb_len env)) (ch_data chs)"
    using wf by (simp add: wf_channels_def n)
  from channel_loop_advances [OF env this, of loc0] obtain d loc where
    l: "channel_loop env (ch_data chs) loc0 = Some (d, loc)" "list_all (wf_sounds n) d"
       "list_all2 (channel_advanced n) (ch_data chs) d"
    unfolding n by blast
  have r: "ws_callback out n time_info chs
             = Some (0, output_buffer loc, chs1\<lparr>ch_data := d, playback_error := cb_error loc\<rparr>)"
    using l(1) by (simp add: ws_callback_def Let_def env_def chs1_def loc0_def)
  have "wf_channels n (chs1\<lparr>ch_data := d, playback_error := cb_error loc\<rparr>)"
    using wf l(2) by (simp add: wf_channels_def chs1_def)
  moreover have len: "length d = length (ch_data chs)"
    using l(3) by (simp add: list_all2_lengthD)
  moreover have "length (q_data (d ! c)) = length (q_data (ch_data chs ! c)) \<and>
              (\<forall>i<length (q_data (ch_data chs ! c)).
                 advanced (q_data (ch_data chs ! c) ! i) (q_data (d ! c) ! i)) \<and>
              (\<forall>s. paused (ch_data chs ! c) = 0 \<and> 0 < n \<and>
                   q_data (ch_data chs ! c) ! nat (consumer_index (ch_data chs ! c)) = Some s \<and>
                   ts_len s \<le> ts_offset s \<longrightarrow>
                   q_data (d ! c) ! nat (consumer_index (ch_data chs ! c)) = None)"
    if "c < length (ch_data chs)" for c
  proof -
    from l(3) that have "channel_advanced n (ch_data chs ! c) (d ! c)"
      by (simp add: list_all2_conv_all_nth)
    then show ?thesis
      by (auto simp: channel_advanced_def list_all2_conv_all_nth)
  qed
  ultimately show ?thesis
    using r by simp
qed

lemma ws_callback_advances_example:
  "wf_channels 2 late_queued \<and>
   (\<exists>out' chs'. ws_callback (\<lambda>k. 0) 2 (buffer_at 1) late_queued = Some (0, out', chs') \<and>
      wf_channels 2 chs' \<and>
      q_data (ch_data chs' ! 0) ! 0 = Some ((newTimedSound tone (1 / 2))\<lparr>ts_offset := 2\<rparr>) \<and>
      advanced (q_data (ch_data late_queued ! 0) ! 0) (q_data (ch_data chs' ! 0) ! 0)) \<and>
   wf_channels 4 completed_stream \<and>
   paused (ch_data completed_stream ! 1) = 0 \<and>
   q_data (ch_data completed_stream ! 1) ! nat (consumer_index (ch_data completed_stream ! 1))
     = Some (playing\<lparr>ts_offset := 50\<rparr>) \<and>
   ts_len (playing\<lparr>ts_offset := 50\<rparr>) \<le> ts_offset (playing\<lparr>ts_offset := 50\<rparr>) \<and>
   (\<exists>out' chs'. ws_callback (\<lambda>k. 0) 4 (buffer_at 1) completed_stream = Some (0, out', chs') \<and>
      q_data (ch_data chs' ! 1) ! 0 = None)"
proof -
  have wf1: "wf_channels 2 late_queued"
    by (simp add: late_queued_def wf_channels_def wf_sounds_def wf_slot_def wf_sound_def
        newChannels_def newSounds_1 newSounds_2 newTimedSound_def tone_def q_len_def)
  have wf2: "wf_channels 4 completed_stream"
    by (simp add: completed_stream_def wf_channels_def wf_sounds_def wf_slot_def wf_sound_def
        newChannels_def newSounds_1 newSounds_2 newTimedSound_def chirp_def playing_def q_len_def)
  have c: "(1::nat) < length (ch_data completed_stream)" "(0::nat) < length (ch_data late_queued)"
    "(0::nat) < length (q_data (ch_data late_queued ! 0))"
    by (simp_all add: completed_stream_def late_queued_def newSounds_1)
  have h: "paused (ch_data completed_stream ! 1) = 0"
    "q_data (ch_data completed_stream ! 1) ! nat (consumer_index (ch_data completed_stream ! 1))
       = Some (playing\<lparr>ts_offset := 50\<rparr>)"
    "ts_len (playing\<lparr>ts_offset := 50\<rparr>) \<le> ts_offset (playing\<lparr>ts_offset := 50\<rparr>)"
    "consumer_index (ch_data completed_stream ! 1) = 0"
    by (simp_all add: completed_stream_def newSounds_2 playing_def)
  from ws_callback_advances [OF wf1, of "\<lambda>k. 0" "buffer_at 1"] c(2,3)
  obtain out1 chs1 where
    1: "ws_callback (\<lambda>k. 0) 2 (buffer_at 1) late_queued = Some (0, out1, chs1)"
       "wf_channels 2 chs1"
       "advanced (q_data (ch_data late_queued ! 0) ! 0) (q_data (ch_data chs1 ! 0) ! 0)"
    by blast
  have "ws_callback (\<lambda>k. 0) 2 (buffer_at 1) late_queued
          = Some (0, out1, chs1) \<longrightarrow>
        q_data (ch_data chs1 ! 0) ! 0 = Some ((newTimedSound tone (1 / 2))\<lparr>ts_offset := 2\<rparr>)"
    by (auto simp: late_queued_def tone_def cb_eval numeral_eq_Suc)
  with 1 have slot1: "q_data (ch_data chs1 ! 0) ! 0 = Some ((newTimedSound tone (1 / 2))\<lparr>ts_offset := 2\<rparr>)"
    by simp
  from ws_callback_advances [OF wf2, of "\<lambda>k. 0" "buffer_at 1"] c(1) h
  obtain out2 chs2 where
    2: "ws_callback (\<lambda>k. 0) 4 (buffer_at 1) completed_stream = Some (0, out2, chs2)"
       "q_data (ch_data chs2 ! 1) ! 0 = None"
    by force
  from wf1 wf2 1 slot1 2 h show ?thesis
    by blast
qed

text \<open>
  Without the bound on the length the sum of line 182 wraps: the offset of a sound of
  \<open>INT_MAX\<close> frames, one frame before its end, is negative after a buffer of 4 frames.
\<close>

lemma sum_samples_wraps:
  "ts_offset (fst (sum_samples \<lparr>cb_len = 4, buffer_start = 1, cb_samplerate = 4, cb_samplelen = 1 / 4\<rparr>
                    long_sound
                    \<lparr>output_buffer = (\<lambda>k. 0), outi = 0, should_start = False, zero_padding = 0,
                     cb_error = 0\<rparr>))
     = - 2147483646"
  by (simp add: sum_samples_def Let_def long_sound_def c_int_def)

text \<open>
  The producer side keeps these states: \<open>newChannels\<close> with a positive sample rate and
  queue size gives one, and \<open>ws_play\<close>, \<open>ws_play_next\<close> (for sounds of a length that is
  not negative and fits) and \<open>ws_pause\<close> keep it.
\<close>

lemma wf_newSounds: "0 < queue_size \<Longrightarrow> wf_sounds n (newSounds queue_size)"
  by (simp add: wf_sounds_def newSounds_def q_len_def list_all_length wf_slot_def)

lemma wf_newChannels:
  "0 < rate \<Longrightarrow> 0 < queue_size \<Longrightarrow> wf_channels n (newChannels rate num_channels queue_size)"
  by (auto simp: wf_channels_def newChannels_def wf_newSounds list_all_iff)

lemma wf_store_sound:
  "wf_sounds n q \<Longrightarrow> 0 \<le> ts_len sound \<Longrightarrow> ts_offset sound = 0 \<Longrightarrow>
   ts_len sound + int n < 2 ^ 31 \<Longrightarrow> wf_sounds n (store_sound q sound)"
  by (auto simp: wf_sounds_def store_sound_def Let_def q_len_def wf_slot_def wf_sound_def
      intro!: list_all_update)

lemma wf_force_complete:
  assumes "wf_sounds n q" "force_complete q = Inr q'"
  shows "wf_sounds n q'"
proof (cases "paused q = 0")
  case True
  with assms show ?thesis by (simp add: force_complete_def)
next
  case False
  with assms obtain s where s: "q_data q ! nat (consumer_index q) = Some s"
    and q': "q' = q\<lparr>q_data := (q_data q)[nat (consumer_index q) := Some (s\<lparr>ts_offset := ts_len s\<rparr>)],
                   paused := 0\<rparr>"
    by (auto simp: force_complete_def split: option.splits)
  from assms(1) have "nat (consumer_index q) < length (q_data q)" "list_all (wf_slot n) (q_data q)"
    by (auto simp: wf_sounds_def q_len_def)
  with s have "wf_sound n s"
    by (auto simp: list_all_length wf_slot_def split: option.splits)
  then have "wf_slot n (Some (s\<lparr>ts_offset := ts_len s\<rparr>))"
    by (simp add: wf_slot_def wf_sound_def)
  with assms(1) show ?thesis
    by (auto simp: q' wf_sounds_def q_len_def intro!: list_all_update)
qed

lemma wf_put_channel:
  assumes "wf_channels n chs" "wf_sounds n q"
  shows "\<exists>chs'. channels (put_channel state chs c q) = Some chs' \<and> wf_channels n chs'"
  using assms by (auto simp: put_channel_def wf_channels_def intro!: list_all_update)

lemma wf_ws_play:
  assumes chs: "channels state = Some chs" and wf: "wf_channels n chs"
    and len: "0 \<le> snd_len toplay" "snd_len toplay + int n < 2 ^ 31"
    and r: "ws_play now playat channel toplay pa_now state = Inr (c, state')"
  shows "\<exists>chs'. channels state' = Some chs' \<and> wf_channels n chs'"
proof -
  let ?sound = "newTimedSound toplay ((pa_now - now) + playat)"
  have snd: "0 \<le> ts_len ?sound" "ts_offset ?sound = 0" "ts_len ?sound + int n < 2 ^ 31"
    using len by (simp_all add: newTimedSound_def)
  have on: "\<exists>chs'. channels state' = Some chs' \<and> wf_channels n chs'"
    if "play_on state chs k ?sound = Inr (c, state')" "0 \<le> k" for k
  proof -
    from that have k: "k < ch_len chs"
      and st: "state' = put_channel state chs k (store_sound (ch_data chs ! nat k) ?sound)"
      by (auto simp: play_on_def split: if_splits)
    from wf k that(2) have "wf_sounds n (ch_data chs ! nat k)"
      by (simp add: wf_channels_def list_all_length ch_len_def)
    from wf_store_sound [OF this snd] wf_put_channel [OF wf] st show ?thesis
      by blast
  qed
  show ?thesis
  proof (cases "channel < 0")
    case False
    with r chs on [of channel] show ?thesis
      by (simp add: ws_play_def Let_def)
  next
    case True
    show ?thesis
    proof (cases "select_channel chs channel < 0")
      case neg: True
      with True r chs wf show ?thesis
        by (auto simp: ws_play_def Let_def)
    next
      case False
      with True r chs on [of "select_channel chs channel"] show ?thesis
        by (simp add: ws_play_def Let_def)
    qed
  qed
qed

lemma wf_ws_play_next:
  assumes chs: "channels state = Some chs" and wf: "wf_channels n chs"
    and len: "0 \<le> snd_len toplay" "snd_len toplay + int n < 2 ^ 31"
    and r: "ws_play_next now channel toplay pa_now state = Inr (t, state')"
  shows "\<exists>chs'. channels state' = Some chs' \<and> wf_channels n chs'"
proof -
  let ?c = "ch_len chs div 2 + channel"
  let ?sound = "newTimedSound toplay (- 1)"
  have snd: "0 \<le> ts_len ?sound" "ts_offset ?sound = 0" "ts_len ?sound + int n < 2 ^ 31"
    using len by (simp_all add: newTimedSound_def)
  from r chs have c: "0 \<le> ?c" "?c < ch_len chs"
    by (auto simp: ws_play_next_def Let_def split: if_splits)
  with r chs obtain q where q: "force_complete (ch_data chs ! nat ?c) = Inr q"
    by (auto simp: ws_play_next_def Let_def split: sum.splits)
  from wf c have "wf_sounds n (ch_data chs ! nat ?c)"
    by (simp add: wf_channels_def list_all_length ch_len_def)
  from wf_force_complete [OF this q] have wfq: "wf_sounds n q" .
  from r chs c q have "state' = put_channel state chs ?c (store_sound q ?sound)
                     \<or> state' = put_channel state chs ?c q"
    by (auto simp: ws_play_next_def Let_def split: if_splits)
  with wf_put_channel [OF wf wfq] wf_put_channel [OF wf wf_store_sound [OF wfq snd]]
  show ?thesis by blast
qed

lemma wf_ws_pause:
  assumes chs: "channels state = Some chs" and wf: "wf_channels n chs"
    and r: "ws_pause state channel isstream pause = Inr state'"
  shows "\<exists>chs'. channels state' = Some chs' \<and> wf_channels n chs'"
proof -
  from ws_pause_frame [OF r] chs obtain d where
    st: "state' = state\<lparr>channels := Some (chs\<lparr>ch_data := d\<rparr>)\<rparr>"
    and len: "length d = length (ch_data chs)"
    and same: "\<forall>i<length d. d ! i = (ch_data chs ! i)\<lparr>paused := paused (d ! i)\<rparr>"
    by auto
  have "wf_sounds n (d ! i)" if "i < length d" for i
  proof -
    from that len wf have "wf_sounds n (ch_data chs ! i)"
      by (simp add: wf_channels_def list_all_length)
    then have "wf_sounds n ((ch_data chs ! i)\<lparr>paused := paused (d ! i)\<rparr>)"
      by (simp add: wf_sounds_def q_len_def)
    with same that show ?thesis by simp
  qed
  then have "list_all (wf_sounds n) d"
    by (simp add: list_all_length)
  with wf st show ?thesis
    by (simp add: wf_channels_def)
qed


lemma process_channel_waiting:
  assumes unpaused: "paused q = 0"
    and head: "q_data q ! nat (consumer_index q) = Some sound"
    and fresh: "ts_offset sound = 0"
    and explicit: "0 < ts_start sound"
    and later: "buffer_start env + cb_samplelen env * real (cb_len env) \<le> ts_start sound"
    and frames: "0 < ts_len sound"
    and clear: "\<not> should_start loc"
  shows "\<exists>loc'. process_channel env q loc = Some (q, loc') \<and>
           output_buffer loc' = output_buffer loc \<and> should_start loc' = should_start loc \<and>
           cb_error loc' = cb_error loc"
proof -
  define l1 where "l1 = loc\<lparr>zero_padding := 0, outi := 0\<rparr>"
  have p: "process_channel env q loc = consume env (q, l1)"
    using unpaused head by (simp add: process_channel_def l1_def)
  have same: "q\<lparr>q_data := (q_data q)[nat (consumer_index q) := Some sound]\<rparr> = q"
    by (simp add: head [symmetric])
  show ?thesis
  proof (cases "0 < cb_len env")
    case False
    then have "consume env (q, l1) = Some (q, l1)"
      using head by (subst consume.simps) (simp add: l1_def)
    with p show ?thesis by (simp add: l1_def)
  next
    case True
    define l2 where "l2 = l1\<lparr>outi := int (cb_len env)\<rparr>"
    have s: "start_sound env sound (q, l1) = (q, l2)"
      using fresh explicit later by (simp add: start_sound_def l2_def)
    have m: "sum_samples env sound l2 = (sound, l2)"
      using fresh clear by (simp add: sum_samples_def l2_def l1_def)
    have d: "remove_done sound q = q"
      using fresh frames same by (simp add: remove_done_def)
    have step: "consume_step env sound (q, l1) = (q, l2)"
      by (simp add: consume_step_def s m d)
    have "consume env (q, l1) = consume env (q, l2)"
      using head True step by (subst consume.simps) (simp add: l1_def)
    also have "\<dots> = Some (q, l2)"
      using head by (subst consume.simps) (simp add: l2_def)
    finally show ?thesis
      using p by (simp add: l2_def l1_def)
  qed
qed

text \<open>
  C1, as amended. The body of the loop over the channels (lines 139--193), on a channel
  that is not paused and whose head sound has offset 0, a positive length and a start
  instant at or after the end of the buffer, \<open>buffer_start + samplelen * len\<close>, when no
  sound has been started earlier in the same call (\<open>should_start\<close> is still false):
  the channel is left as it was, with the sound at offset 0 in its slot, and nothing is
  added to the output buffer.
\<close>

theorem process_channel_not_due:
  assumes unpaused: "paused q = 0"
    and head: "q_data q ! nat (consumer_index q) = Some sound"
    and fresh: "ts_offset sound = 0"
    and explicit: "0 < ts_start sound"
    and later: "buffer_start env + cb_samplelen env * real (cb_len env) \<le> ts_start sound"
    and frames: "0 < ts_len sound"
    and clear: "\<not> should_start loc"
  shows "\<exists>loc'. process_channel env q loc = Some (q, loc') \<and>
           output_buffer loc' = output_buffer loc \<and> should_start loc' = should_start loc \<and>
           cb_error loc' = cb_error loc"
  using assms by (rule process_channel_waiting)

theorem process_channel_not_due_witness:
  "paused ((newSounds 1)\<lparr>q_data := [Some (newTimedSound tone 2)]\<rparr>) = 0 \<and>
   q_data ((newSounds 1)\<lparr>q_data := [Some (newTimedSound tone 2)]\<rparr>)
     ! nat (consumer_index ((newSounds 1)\<lparr>q_data := [Some (newTimedSound tone 2)]\<rparr>))
     = Some (newTimedSound tone 2) \<and>
   \<not> should_start \<lparr>output_buffer = (\<lambda>k. 0), outi = 4, should_start = False,
                      zero_padding = 0, cb_error = 0\<rparr> \<and>
   ts_offset (newTimedSound tone 2) = 0 \<and> 0 < ts_start (newTimedSound tone 2) \<and>
   1 + (1 / 4) * real (4 :: nat) \<le> ts_start (newTimedSound tone 2) \<and>
   0 < ts_len (newTimedSound tone 2) \<and>
   (\<exists>loc'. process_channel \<lparr>cb_len = 4, buffer_start = 1, cb_samplerate = 4, cb_samplelen = 1 / 4\<rparr>
             ((newSounds 1)\<lparr>q_data := [Some (newTimedSound tone 2)]\<rparr>)
             \<lparr>output_buffer = (\<lambda>k. 0), outi = 4, should_start = False, zero_padding = 0,
              cb_error = 0\<rparr>
           = Some ((newSounds 1)\<lparr>q_data := [Some (newTimedSound tone 2)]\<rparr>, loc') \<and>
           output_buffer loc' = (\<lambda>k. 0))"
proof -
  let ?q = "(newSounds 1)\<lparr>q_data := [Some (newTimedSound tone 2)]\<rparr>"
  let ?env = "\<lparr>cb_len = 4, buffer_start = 1, cb_samplerate = 4, cb_samplelen = 1 / 4\<rparr>"
  let ?loc = "\<lparr>output_buffer = (\<lambda>k. 0), outi = 4, should_start = False, zero_padding = 0,
              cb_error = 0\<rparr>"
  have h: "paused ?q = 0" "q_data ?q ! nat (consumer_index ?q) = Some (newTimedSound tone 2)"
    "ts_offset (newTimedSound tone 2) = 0" "0 < ts_start (newTimedSound tone 2)"
    "buffer_start ?env + cb_samplelen ?env * real (cb_len ?env) \<le> ts_start (newTimedSound tone 2)"
    "0 < ts_len (newTimedSound tone 2)" "\<not> should_start ?loc"
    by (simp_all add: newSounds_1 newTimedSound_def tone_def)
  from process_channel_not_due [OF h] obtain loc' where
    "process_channel ?env ?q ?loc = Some (?q, loc')" "output_buffer loc' = (\<lambda>k. 0)"
    by auto
  then show ?thesis
    using h by auto
qed

text \<open>
  C1 as stated fails for a start instant before the buffer. \<open>tone\<close> is due at 1/2, the
  buffer of 2 frames starts at 1: the instant is outside of the buffer's interval, and
  the callback sums the first two frames of the sound into the output, leaves its
  offset at 2 and records a lateness of 2 frames.
\<close>

theorem ws_callback_late_start_counterexample:
  "paused (ch_data late_queued ! 0) = 0 \<and>
   q_data (ch_data late_queued ! 0) ! nat (consumer_index (ch_data late_queued ! 0))
     = Some (newTimedSound tone (1 / 2)) \<and>
   ts_offset (newTimedSound tone (1 / 2)) = 0 \<and>
   0 < ts_start (newTimedSound tone (1 / 2)) \<and>
   \<not> (1 \<le> ts_start (newTimedSound tone (1 / 2)) \<and>
      ts_start (newTimedSound tone (1 / 2)) < 1 + real (2 :: nat) * samplelen late_queued) \<and>
   (case ws_callback (\<lambda>k. 0) 2 (buffer_at 1) late_queued of
      None \<Rightarrow> False
    | Some (r, out', chs') \<Rightarrow>
        map out' [0, 1, 2, 3] = [10, 10, 10, 10] \<and>
        q_data (ch_data chs' ! 0) = [Some ((newTimedSound tone (1 / 2))\<lparr>ts_offset := 2\<rparr>)] \<and>
        playback_error chs' = - 2)"
  by (simp add: late_queued_def tone_def cb_eval numeral_eq_Suc)

text \<open>
  C4, at the failing input. \<open>chirp\<close> is played at time 1 on channel 0 and \<open>tone\<close> on
  channel 1 at time 2, alone on its channel. The callbacks have 4 frames: the first
  buffer starts at 1, the second at 2, the instant \<open>tone\<close> is due. The first callback
  starts \<open>chirp\<close>, which sets \<open>should_start\<close>; the flag is still set when the loop
  comes to channel 1, and the three frames of \<open>tone\<close> are summed into the first buffer,
  one buffer early, and its slot is cleared. The second callback, whose buffer starts at
  the boundary, plays nothing.
\<close>

theorem ws_callback_starts_early:
  "ws_play 0 1 0 chirp 0 stereo_state =
     Inr (0, stereo_state\<lparr>channels := Some ((newChannels 4 2 1)\<lparr>ch_data :=
        [(newSounds 1)\<lparr>q_data := [Some (newTimedSound chirp 1)]\<rparr>,
         newSounds 1, newSounds 2, newSounds 2]\<rparr>)\<rparr>) \<and>
   ws_play 0 2 1 tone 0 (stereo_state\<lparr>channels := Some ((newChannels 4 2 1)\<lparr>ch_data :=
        [(newSounds 1)\<lparr>q_data := [Some (newTimedSound chirp 1)]\<rparr>,
         newSounds 1, newSounds 2, newSounds 2]\<rparr>)\<rparr>)
     = Inr (1, stereo_state\<lparr>channels := Some two_queued\<rparr>) \<and>
   (case ws_callback (\<lambda>k. 0) 4 (buffer_at 1) two_queued of
      None \<Rightarrow> False
    | Some (r, out', chs') \<Rightarrow>
        map out' [0, 1, 2, 3, 4, 5, 6, 7] = [11, 11, 11, 11, 10, 10, 0, 0] \<and>
        q_data (ch_data chs' ! 0) = [None] \<and> q_data (ch_data chs' ! 1) = [None] \<and>
        (case ws_callback out' 4 (buffer_at 2) chs' of
           None \<Rightarrow> False
         | Some (r2, out2, chs2) \<Rightarrow> map out2 [0, 1, 2, 3, 4, 5, 6, 7] = [0, 0, 0, 0, 0, 0, 0, 0]))"
  by (simp add: two_queued_def stereo_state_def tone_def chirp_def cb_eval numeral_eq_Suc
      ws_play_def play_on_def put_channel_def store_sound_def ch_len_def)

text \<open>
  What the code does do for such a sound. From the buffer that starts at the sound's
  start instant on, whatever \<open>should_start\<close> holds, each callback adds the next
  \<open>min len (frameCount - offset)\<close> frames of the sound, once, to the first frames of the
  output, advances the offset by \<open>len\<close>, and clears the slot when the sound ends.
\<close>

lemma process_channel_empty:
  assumes "paused q = 0" "q_data q ! nat (consumer_index q) = None"
  shows "process_channel env q loc =
           Some (q\<lparr>done_at := buffer_start env + cb_samplelen env * real (cb_len env)\<rparr>,
                 loc\<lparr>zero_padding := 0, outi := 0\<rparr>)"
  using assms by (simp add: process_channel_def) (subst consume.simps, simp)

lemma process_channel_running:
  assumes unpaused: "paused q = 0"
    and idx: "0 \<le> consumer_index q" "consumer_index q < q_len q"
    and head: "q_data q ! nat (consumer_index q) = Some sound"
    and alone: "\<forall>i<length (q_data q). i \<noteq> nat (consumer_index q) \<longrightarrow> q_data q ! i = None"
    and env: "0 < cb_samplerate env" "cb_samplelen env = 1 / cb_samplerate env"
    and n: "0 < cb_len env"
    and fits: "ts_len sound + int (cb_len env) < 2 ^ 31"
    and started: "(0 < ts_offset sound \<and> ts_offset sound < ts_len sound) \<or>
                  (ts_offset sound = 0 \<and> 0 < ts_len sound \<and> 0 < ts_start sound \<and>
                   ts_start sound = buffer_start env)"
  shows "\<exists>q' loc'. process_channel env q loc = Some (q', loc') \<and>
           output_buffer loc' =
             mixed (output_buffer loc) sound 0 (ts_offset sound) 0
               (min (int (cb_len env)) (ts_len sound - ts_offset sound)) \<and>
           paused q' = 0 \<and> producer_index q' = producer_index q \<and>
           (if ts_offset sound + int (cb_len env) < ts_len sound
            then q_data q' = (q_data q)[nat (consumer_index q) :=
                                Some (sound\<lparr>ts_offset := ts_offset sound + int (cb_len env)\<rparr>)] \<and>
                 consumer_index q' = consumer_index q
            else q_data q' = (q_data q)[nat (consumer_index q) := None] \<and>
                 consumer_index q' = (if consumer_index q + 1 = q_len q then 0
                                      else consumer_index q + 1))"
proof -
  let ?n = "int (cb_len env)" and ?i = "nat (consumer_index q)"
  let ?off = "ts_offset sound" and ?F = "ts_len sound"
  define l1 where "l1 = loc\<lparr>zero_padding := 0, outi := 0\<rparr>"
  have p: "process_channel env q loc = consume env (q, l1)"
    using unpaused head by (simp add: process_channel_def l1_def)
  define st1 where "st1 = start_sound env sound (q, l1)"
  have s0: "paused (fst st1) = 0" "producer_index (fst st1) = producer_index q"
    using unpaused by (auto simp: st1_def start_sound_def l1_def Let_def)
  have s: "q_data (fst st1) = q_data q" "consumer_index (fst st1) = consumer_index q"
    "zero_padding (snd st1) = 0" "outi (snd st1) = 0" "output_buffer (snd st1) = output_buffer loc"
    "0 < ?off \<or> should_start (snd st1)" "?off < ?F" "0 \<le> ?off"
  proof -
    from started show "q_data (fst st1) = q_data q" "consumer_index (fst st1) = consumer_index q"
      "zero_padding (snd st1) = 0" "outi (snd st1) = 0" "output_buffer (snd st1) = output_buffer loc"
      "0 < ?off \<or> should_start (snd st1)" "?off < ?F" "0 \<le> ?off"
      using env n by (auto simp: st1_def start_sound_def l1_def Let_def)
  qed
  define r where "r = sum_samples env sound (snd st1)"
  have m: "fst r = sound\<lparr>ts_offset := ?off + ?n\<rparr>"
    "outi (snd r) = min ?n (?F - ?off)"
    "output_buffer (snd r) = mixed (output_buffer loc) sound 0 ?off 0 (min ?n (?F - ?off))"
    using s(3,4,5,6,7,8) n fits
    by (auto simp: r_def sum_samples_def Let_def mix_loop_fst mix_loop_snd max_def min_def c_int_id)
  define q1 where "q1 = remove_done (fst r) (fst st1)"
  have step: "consume_step env sound (q, l1) = (q1, snd r)"
    by (simp add: consume_step_def Let_def st1_def r_def q1_def)
  have first: "consume env (q, l1) = consume env (q1, snd r)"
    using head n step by (subst consume.simps) (simp add: l1_def)
  have i: "?i < length (q_data q)"
    using idx by (simp add: q_len_def)
  show ?thesis
  proof (cases "?off + ?n < ?F")
    case True
    then have kept: "q_data q1 = (q_data q)[?i := Some (sound\<lparr>ts_offset := ?off + ?n\<rparr>)]"
      "consumer_index q1 = consumer_index q"
      using s(1,2) m(1) by (simp_all add: q1_def remove_done_def)
    from True have "outi (snd r) = ?n"
      using m(2) by simp
    then have "consume env (q1, snd r) = Some (q1, snd r)"
      by (subst consume.simps) (simp split: option.splits)
    moreover have "paused q1 = 0" "producer_index q1 = producer_index q"
      using s0 by (simp_all add: q1_def remove_done_def Let_def)
    ultimately show ?thesis
      using p first kept m(3) True by simp
  next
    case False
    then have gone: "q_data q1 = (q_data q)[?i := None]"
      "consumer_index q1 = (if consumer_index q + 1 = q_len q then 0 else consumer_index q + 1)"
      using s(1,2) m(1) by (simp_all add: q1_def remove_done_def Let_def q_len_def)
    have "nat (consumer_index q1) < length (q_data q)"
      using idx gone(2) by (auto simp: q_len_def)
    then have "q_data q1 ! nat (consumer_index q1) = None"
      using alone i by (cases "nat (consumer_index q1) = ?i") (simp_all add: gone(1))
    then have "consume env (q1, snd r) = Some (q1, snd r)"
      by (subst consume.simps) simp
    moreover have "paused q1 = 0" "producer_index q1 = producer_index q"
      using s0 by (simp_all add: q1_def remove_done_def Let_def)
    ultimately show ?thesis
      using p first gone m(3) False by simp
  qed
qed

text \<open>
  In an engine where every other channel is idle the flag is clear when the channel
  is reached, and the whole callback can be stated: silence while the sound is not due,
  the frames of the sound from the boundary on, silence after its last frame.
\<close>

lemma process_channel_idle:
  assumes "idle q"
  shows "\<exists>q' loc'. process_channel env q loc = Some (q', loc') \<and> same_mix loc loc' \<and> idle q' \<and>
           q_data q' = q_data q \<and> consumer_index q' = consumer_index q \<and>
           producer_index q' = producer_index q \<and> paused q' = paused q"
proof (cases "paused q = 0")
  case True
  with assms have "q_data q ! nat (consumer_index q) = None"
    by (simp add: idle_def)
  from process_channel_empty [OF True this, of env loc] show ?thesis
    using assms by (simp add: same_mix_def idle_def)
next
  case False
  then have "process_channel env q loc = Some (q, loc)"
    by (simp add: process_channel_def)
  with assms show ?thesis
    by (simp add: same_mix_def)
qed

lemma channel_loop_idle:
  "list_all idle qs \<Longrightarrow>
   \<exists>qs' loc'. channel_loop env qs loc = Some (qs', loc') \<and> same_mix loc loc' \<and>
      list_all idle qs' \<and> length qs' = length qs \<and> map q_data qs' = map q_data qs"
proof (induction qs arbitrary: loc)
  case Nil
  then show ?case by (simp add: same_mix_def)
next
  case (Cons q qs)
  then have "idle q" "list_all idle qs" by simp_all
  from process_channel_idle [OF this(1), of env loc] obtain q' l1 where
    p: "process_channel env q loc = Some (q', l1)" "same_mix loc l1" "idle q'" "q_data q' = q_data q"
    by blast
  from Cons.IH [OF \<open>list_all idle qs\<close>, of l1] obtain qs' l2 where
    r: "channel_loop env qs l1 = Some (qs', l2)" "same_mix l1 l2" "list_all idle qs'"
       "length qs' = length qs" "map q_data qs' = map q_data qs"
    by blast
  from p r show ?case
    by (simp add: same_mix_def)
qed

lemma channel_loop_append:
  "channel_loop env (xs @ ys) loc =
     (case channel_loop env xs loc of
        None \<Rightarrow> None
      | Some (xs', l1) \<Rightarrow>
          (case channel_loop env ys l1 of
             None \<Rightarrow> None
           | Some (ys', l2) \<Rightarrow> Some (xs' @ ys', l2)))"
  by (induction xs arbitrary: loc) (auto split: option.splits)

lemma ws_callback_split:
  assumes data: "ch_data chs = pre @ q # post"
    and pre: "list_all idle pre" and post: "list_all idle post"
    and mid: "\<And>loc. \<not> should_start loc \<Longrightarrow> \<exists>q' loc'. process_channel
                 \<lparr>cb_len = n, buffer_start = outputBufferDacTime time_info,
                  cb_samplerate = samplerate chs, cb_samplelen = samplelen chs\<rparr> q loc
                   = Some (q', loc') \<and> output_buffer loc' = f (output_buffer loc) \<and> P q'"
  shows "\<exists>out' chs' pre' q' post'.
           ws_callback out n time_info chs = Some (0, out', chs') \<and>
           out' = f (zero_output n out) \<and>
           ch_data chs' = pre' @ q' # post' \<and> P q' \<and>
           length pre' = length pre \<and> list_all idle pre' \<and> list_all idle post' \<and>
           map q_data pre' = map q_data pre \<and> map q_data post' = map q_data post \<and>
           samplerate chs' = samplerate chs \<and> samplelen chs' = samplelen chs"
proof -
  define env where "env = \<lparr>cb_len = n, buffer_start = outputBufferDacTime time_info,
                 cb_samplerate = samplerate chs, cb_samplelen = samplelen chs\<rparr>"
  define chs1 where "chs1 = chs\<lparr>last_latency := outputBufferDacTime time_info - currentTime time_info,
                     last_buffer_size := n\<rparr>"
  define loc0 where "loc0 = \<lparr>output_buffer = zero_output n out, outi = int n, should_start = False,
                  zero_padding = 0, cb_error = playback_error chs1\<rparr>"
  from channel_loop_idle [OF pre, of env loc0] obtain pre' l1 where
    a: "channel_loop env pre loc0 = Some (pre', l1)" "same_mix loc0 l1" "list_all idle pre'"
       "length pre' = length pre" "map q_data pre' = map q_data pre"
    by blast
  have "\<not> should_start l1"
    using a(2) by (simp add: same_mix_def loc0_def)
  from mid [OF this] obtain q' l2 where
    b: "process_channel env q l1 = Some (q', l2)" "output_buffer l2 = f (output_buffer l1)" "P q'"
    unfolding env_def by blast
  from channel_loop_idle [OF post, of env l2] obtain post' l3 where
    c: "channel_loop env post l2 = Some (post', l3)" "same_mix l2 l3" "list_all idle post'"
       "map q_data post' = map q_data post"
    by blast
  have "channel_loop env (q # post) l1 = Some (q' # post', l3)"
    using b(1) c(1) by simp
  with a(1) have run: "channel_loop env (ch_data chs1) loc0 = Some (pre' @ q' # post', l3)"
    by (simp add: chs1_def data channel_loop_append)
  define chs2 where "chs2 = chs1\<lparr>ch_data := pre' @ q' # post', playback_error := cb_error l3\<rparr>"
  have mix: "output_buffer l3 = f (zero_output n out)"
    using a(2) b(2) c(2) by (simp add: same_mix_def loc0_def)
  have "ws_callback out n time_info chs = Some (0, f (zero_output n out), chs2)"
    using run mix by (simp add: ws_callback_def Let_def env_def chs1_def loc0_def chs2_def)
  moreover have "ch_data chs2 = pre' @ q' # post'" "samplerate chs2 = samplerate chs"
    "samplelen chs2 = samplelen chs"
    by (simp_all add: chs2_def chs1_def)
  ultimately show ?thesis
    using a(3,4,5) b(3) c(3,4) by blast
qed

lemma ws_callback_one_running:
  assumes data: "ch_data chs = pre @ q # post"
    and pre: "list_all idle pre" and post: "list_all idle post"
    and unpaused: "paused q = 0"
    and idx: "0 \<le> consumer_index q" "consumer_index q < q_len q"
    and head: "q_data q ! nat (consumer_index q) = Some sound"
    and alone: "\<forall>i<length (q_data q). i \<noteq> nat (consumer_index q) \<longrightarrow> q_data q ! i = None"
    and rate: "0 < samplerate chs" "samplelen chs = 1 / samplerate chs"
    and n: "0 < n"
    and fits: "ts_len sound + int n < 2 ^ 31"
    and started: "(0 < ts_offset sound \<and> ts_offset sound < ts_len sound) \<or>
                  (ts_offset sound = 0 \<and> 0 < ts_len sound \<and> 0 < ts_start sound \<and>
                   ts_start sound = outputBufferDacTime time_info)"
  shows "\<exists>out' chs' pre' q' post'.
           ws_callback out n time_info chs = Some (0, out', chs') \<and>
           out' = mixed (zero_output n out) sound 0 (ts_offset sound) 0
                    (min (int n) (ts_len sound - ts_offset sound)) \<and>
           ch_data chs' = pre' @ q' # post' \<and>
           (paused q' = 0 \<and> producer_index q' = producer_index q \<and>
            (if ts_offset sound + int n < ts_len sound
             then q_data q' = (q_data q)[nat (consumer_index q) :=
                                Some (sound\<lparr>ts_offset := ts_offset sound + int n\<rparr>)] \<and>
                  consumer_index q' = consumer_index q
             else q_data q' = (q_data q)[nat (consumer_index q) := None] \<and>
                  consumer_index q' = (if consumer_index q + 1 = q_len q then 0
                                       else consumer_index q + 1))) \<and>
           length pre' = length pre \<and> list_all idle pre' \<and> list_all idle post' \<and>
           map q_data pre' = map q_data pre \<and> map q_data post' = map q_data post \<and>
           samplerate chs' = samplerate chs \<and> samplelen chs' = samplelen chs"
proof (rule ws_callback_split [OF data pre post])
  fix loc :: cb_locals
  let ?env = "\<lparr>cb_len = n, buffer_start = outputBufferDacTime time_info,
                  cb_samplerate = samplerate chs, cb_samplelen = samplelen chs\<rparr>"
  have env: "0 < cb_samplerate ?env" "cb_samplelen ?env = 1 / cb_samplerate ?env" "0 < cb_len ?env"
    "ts_len sound + int (cb_len ?env) < 2 ^ 31"
    using rate n fits by simp_all
  have st: "(0 < ts_offset sound \<and> ts_offset sound < ts_len sound) \<or>
                  (ts_offset sound = 0 \<and> 0 < ts_len sound \<and> 0 < ts_start sound \<and>
                   ts_start sound = buffer_start ?env)"
    using started by simp
  from process_channel_running [OF unpaused idx head alone env st, of loc]
  show "\<exists>q' loc'. process_channel ?env q loc = Some (q', loc') \<and>
          output_buffer loc' = mixed (output_buffer loc) sound 0 (ts_offset sound) 0
                    (min (int n) (ts_len sound - ts_offset sound)) \<and>
          (paused q' = 0 \<and> producer_index q' = producer_index q \<and>
            (if ts_offset sound + int n < ts_len sound
             then q_data q' = (q_data q)[nat (consumer_index q) :=
                                Some (sound\<lparr>ts_offset := ts_offset sound + int n\<rparr>)] \<and>
                  consumer_index q' = consumer_index q
             else q_data q' = (q_data q)[nat (consumer_index q) := None] \<and>
                  consumer_index q' = (if consumer_index q + 1 = q_len q then 0
                                       else consumer_index q + 1)))"
    by (simp only: callback_args.select_convs)
qed

lemma ws_callback_one_waiting:
  assumes data: "ch_data chs = pre @ q # post"
    and pre: "list_all idle pre" and post: "list_all idle post"
    and unpaused: "paused q = 0"
    and head: "q_data q ! nat (consumer_index q) = Some sound"
    and fresh: "ts_offset sound = 0" "0 < ts_start sound" "0 < ts_len sound"
    and later: "outputBufferDacTime time_info + samplelen chs * real n \<le> ts_start sound"
  shows "\<exists>out' chs' pre' q' post'.
           ws_callback out n time_info chs = Some (0, out', chs') \<and>
           out' = id (zero_output n out) \<and>
           ch_data chs' = pre' @ q' # post' \<and> q' = q \<and>
           length pre' = length pre \<and> list_all idle pre' \<and> list_all idle post' \<and>
           map q_data pre' = map q_data pre \<and> map q_data post' = map q_data post \<and>
           samplerate chs' = samplerate chs \<and> samplelen chs' = samplelen chs"
proof (rule ws_callback_split [OF data pre post])
  fix loc :: cb_locals
  assume clear: "\<not> should_start loc"
  let ?env = "\<lparr>cb_len = n, buffer_start = outputBufferDacTime time_info,
                  cb_samplerate = samplerate chs, cb_samplelen = samplelen chs\<rparr>"
  have "buffer_start ?env + cb_samplelen ?env * real (cb_len ?env) \<le> ts_start sound"
    using later by simp
  from process_channel_waiting [OF unpaused head fresh(1,2) this fresh(3) clear]
  show "\<exists>q' loc'. process_channel ?env q loc = Some (q', loc') \<and>
          output_buffer loc' = id (output_buffer loc) \<and> q' = q"
    by auto
qed

lemma ws_callback_all_idle:
  assumes "list_all idle (ch_data chs)"
  shows "\<exists>chs'. ws_callback out n time_info chs = Some (0, zero_output n out, chs') \<and>
           list_all idle (ch_data chs') \<and> map q_data (ch_data chs') = map q_data (ch_data chs)"
proof -
  define env where "env = \<lparr>cb_len = n, buffer_start = outputBufferDacTime time_info,
                 cb_samplerate = samplerate chs, cb_samplelen = samplelen chs\<rparr>"
  define chs1 where "chs1 = chs\<lparr>last_latency := outputBufferDacTime time_info - currentTime time_info,
                     last_buffer_size := n\<rparr>"
  define loc0 where "loc0 = \<lparr>output_buffer = zero_output n out, outi = int n, should_start = False,
                  zero_padding = 0, cb_error = playback_error chs1\<rparr>"
  from channel_loop_idle [OF assms, of env loc0] obtain d l1 where
    a: "channel_loop env (ch_data chs) loc0 = Some (d, l1)" "same_mix loc0 l1" "list_all idle d"
       "map q_data d = map q_data (ch_data chs)"
    by blast
  then have "ws_callback out n time_info chs
               = Some (0, zero_output n out, chs1\<lparr>ch_data := d, playback_error := cb_error l1\<rparr>)"
    by (simp add: ws_callback_def Let_def env_def chs1_def loc0_def same_mix_def)
  with a(3,4) show ?thesis by simp
qed

text \<open>
  Scenario A: 100 frames, buffers of 64 frames at the sample rate 4. The buffer that ends
  at the boundary is silent, the buffer that starts at the boundary (time 1) gets the
  frames 0--63, the next one (time 17) the frames 64--99 in its first 36 frames and
  the slot is cleared, the one after that is silent.
\<close>

lemma scenario_A_round_trip:
  "\<exists>out0 chs0 out1 chs1 out2 chs2 out3 chs3.
     ws_callback out 64 (buffer_at (- 15)) (scenario_A buf) = Some (0, out0, chs0) \<and>
     out0 = zero_output 64 out \<and>
     q_data (ch_data chs0 ! 0) = [Some (hundred buf)] \<and>
     ws_callback out0 64 (buffer_at 1) chs0 = Some (0, out1, chs1) \<and>
     out1 = mixed (zero_output 64 out0) (hundred buf) 0 0 0 64 \<and>
     q_data (ch_data chs1 ! 0) = [Some ((hundred buf)\<lparr>ts_offset := 64\<rparr>)] \<and>
     ws_callback out1 64 (buffer_at 17) chs1 = Some (0, out2, chs2) \<and>
     out2 = mixed (zero_output 64 out1) (hundred buf) 0 64 0 36 \<and>
     q_data (ch_data chs2 ! 0) = [None] \<and>
     ws_callback out2 64 (buffer_at 33) chs2 = Some (0, out3, chs3) \<and>
     out3 = zero_output 64 out2"
proof -
  let ?q = "(newSounds 1)\<lparr>q_data := [Some (hundred buf)]\<rparr>"
  let ?s = "hundred buf"
  have data: "ch_data (scenario_A buf) = [] @ ?q # [newSounds 2]"
    by (simp add: scenario_A_def)
  have idle2: "list_all idle [newSounds 2]" "list_all idle []"
    by (simp_all add: idle_def newSounds_2)
  have rate: "samplerate (scenario_A buf) = 4" "samplelen (scenario_A buf) = 1 / 4"
    by (simp_all add: scenario_A_def newChannels_def)
  have "\<exists>out' chs' pre' q' post'.
           ws_callback out 64 (buffer_at (- 15)) (scenario_A buf) = Some (0, out', chs') \<and>
           out' = id (zero_output 64 out) \<and>
           ch_data chs' = pre' @ q' # post' \<and> q' = ?q \<and>
           length pre' = length ([] :: Sounds list) \<and> list_all idle pre' \<and> list_all idle post' \<and>
           map q_data pre' = map q_data ([] :: Sounds list) \<and> map q_data post' = map q_data [newSounds 2] \<and>
           samplerate chs' = samplerate (scenario_A buf) \<and> samplelen chs' = samplelen (scenario_A buf)"
    by (rule ws_callback_one_waiting [OF data idle2(2,1), where sound = ?s])
       (simp_all add: newSounds_1 hundred_def buffer_at_def rate)
  then obtain out0 chs0 post0 where
    c0: "ws_callback out 64 (buffer_at (- 15)) (scenario_A buf) = Some (0, out0, chs0)"
        "out0 = zero_output 64 out" "ch_data chs0 = [] @ ?q # post0" "list_all idle post0"
        "samplerate chs0 = 4" "samplelen chs0 = 1 / 4"
    using rate by auto
  have "\<exists>out' chs' pre' q' post'.
           ws_callback out0 64 (buffer_at 1) chs0 = Some (0, out', chs') \<and>
           out' = mixed (zero_output 64 out0) ?s 0 (ts_offset ?s) 0
                    (min (int 64) (ts_len ?s - ts_offset ?s)) \<and>
           ch_data chs' = pre' @ q' # post' \<and>
           (paused q' = 0 \<and> producer_index q' = producer_index ?q \<and>
            (if ts_offset ?s + int 64 < ts_len ?s
             then q_data q' = (q_data ?q)[nat (consumer_index ?q) :=
                                Some (?s\<lparr>ts_offset := ts_offset ?s + int 64\<rparr>)] \<and>
                  consumer_index q' = consumer_index ?q
             else q_data q' = (q_data ?q)[nat (consumer_index ?q) := None] \<and>
                  consumer_index q' = (if consumer_index ?q + 1 = q_len ?q then 0
                                       else consumer_index ?q + 1))) \<and>
           length pre' = length ([] :: Sounds list) \<and> list_all idle pre' \<and> list_all idle post' \<and>
           map q_data pre' = map q_data ([] :: Sounds list) \<and> map q_data post' = map q_data post0 \<and>
           samplerate chs' = samplerate chs0 \<and> samplelen chs' = samplelen chs0"
    by (rule ws_callback_one_running [OF c0(3) idle2(2) c0(4), where sound = ?s])
       (simp_all add: newSounds_1 hundred_def buffer_at_def c0(5,6) q_len_def)
  then obtain out1 chs1 q1 post1 where
    c1: "ws_callback out0 64 (buffer_at 1) chs0 = Some (0, out1, chs1)"
        "out1 = mixed (zero_output 64 out0) ?s 0 0 0 64" "ch_data chs1 = [] @ q1 # post1"
        "list_all idle post1" "samplerate chs1 = 4" "samplelen chs1 = 1 / 4"
        "paused q1 = 0" "q_data q1 = [Some (?s\<lparr>ts_offset := 64\<rparr>)]" "consumer_index q1 = 0"
    using c0(5,6) by (auto simp: hundred_def newSounds_1)
  let ?s1 = "?s\<lparr>ts_offset := 64\<rparr>"
  have "\<exists>out' chs' pre' q' post'.
           ws_callback out1 64 (buffer_at 17) chs1 = Some (0, out', chs') \<and>
           out' = mixed (zero_output 64 out1) ?s1 0 (ts_offset ?s1) 0
                    (min (int 64) (ts_len ?s1 - ts_offset ?s1)) \<and>
           ch_data chs' = pre' @ q' # post' \<and>
           (paused q' = 0 \<and> producer_index q' = producer_index q1 \<and>
            (if ts_offset ?s1 + int 64 < ts_len ?s1
             then q_data q' = (q_data q1)[nat (consumer_index q1) :=
                                Some (?s1\<lparr>ts_offset := ts_offset ?s1 + int 64\<rparr>)] \<and>
                  consumer_index q' = consumer_index q1
             else q_data q' = (q_data q1)[nat (consumer_index q1) := None] \<and>
                  consumer_index q' = (if consumer_index q1 + 1 = q_len q1 then 0
                                       else consumer_index q1 + 1))) \<and>
           length pre' = length ([] :: Sounds list) \<and> list_all idle pre' \<and> list_all idle post' \<and>
           map q_data pre' = map q_data ([] :: Sounds list) \<and> map q_data post' = map q_data post1 \<and>
           samplerate chs' = samplerate chs1 \<and> samplelen chs' = samplelen chs1"
    by (rule ws_callback_one_running [OF c1(3) idle2(2) c1(4), where sound = ?s1])
       (simp_all add: c1 hundred_def q_len_def)
  then obtain out2 chs2 q2 post2 where
    c2: "ws_callback out1 64 (buffer_at 17) chs1 = Some (0, out2, chs2)"
        "out2 = mixed (zero_output 64 out1) ?s1 0 64 0 36" "ch_data chs2 = [] @ q2 # post2"
        "list_all idle post2" "q_data q2 = [None]" "consumer_index q2 = 0"
    by (auto simp: hundred_def c1 q_len_def)
  have same: "mixed (zero_output 64 out1) ?s1 0 64 0 36 = mixed (zero_output 64 out1) ?s 0 64 0 36"
    by (auto simp: mixed_def hundred_def fun_eq_iff)
  have "list_all idle (ch_data chs2)"
    using c2 by (simp add: idle_def)
  from ws_callback_all_idle [OF this, of out2 64 "buffer_at 33"] obtain chs3 where
    c3: "ws_callback out2 64 (buffer_at 33) chs2 = Some (0, zero_output 64 out2, chs3)"
    by blast
  from c0 c1 c2 c3 same show ?thesis
    by (intro exI [of _ out0] exI [of _ chs0] exI [of _ out1] exI [of _ chs1]
        exI [of _ out2] exI [of _ chs2] exI [of _ "zero_output 64 out2"] exI [of _ chs3]) simp
qed

end
